theory Spec2Isabelle
  imports Complex_Main "HOL-Library.Monad_Syntax" "HOL-Library.Multiset"
begin

section \<open>Python floats\<close>

text \<open>
  A Python \<^verbatim>\<open>float\<close> is either finite, or one of the two infinities, or NaN.
  In this first reading a finite value is an exact real and the arithmetic on finite
  values is exact: rounding, overflow to infinity and the sign of zero are left out.
  The properties that depend on rounding are stated on the second reading, the rounded
  operations of the section on binary64 rounding. Arithmetic on the non-finite values
  follows IEEE 754, comparisons with NaN are false, and division by zero raises
  \<^verbatim>\<open>ZeroDivisionError\<close>. A raised exception is the value \<open>None\<close>.
\<close>

datatype pyfloat = Fin real | PInf | NInf | NaN

fun isfinite :: "pyfloat \<Rightarrow> bool" where
  "isfinite (Fin r) = True"
| "isfinite PInf = False"
| "isfinite NInf = False"
| "isfinite NaN = False"

text \<open>\<^verbatim>\<open>a < b\<close> on floats.\<close>

fun flt :: "pyfloat \<Rightarrow> pyfloat \<Rightarrow> bool" where
  "flt (Fin a) (Fin b) = (a < b)"
| "flt (Fin a) PInf = True"
| "flt NInf (Fin b) = True"
| "flt NInf PInf = True"
| "flt _ _ = False"

text \<open>\<^verbatim>\<open>a <= b\<close> on floats.\<close>

fun fle :: "pyfloat \<Rightarrow> pyfloat \<Rightarrow> bool" where
  "fle (Fin a) (Fin b) = (a \<le> b)"
| "fle (Fin a) PInf = True"
| "fle NInf (Fin b) = True"
| "fle NInf PInf = True"
| "fle PInf PInf = True"
| "fle NInf NInf = True"
| "fle _ _ = False"

definition fgt :: "pyfloat \<Rightarrow> pyfloat \<Rightarrow> bool" where
  "fgt a b = flt b a"

definition fge :: "pyfloat \<Rightarrow> pyfloat \<Rightarrow> bool" where
  "fge a b = fle b a"

fun fneg :: "pyfloat \<Rightarrow> pyfloat" where
  "fneg (Fin a) = Fin (- a)"
| "fneg PInf = NInf"
| "fneg NInf = PInf"
| "fneg NaN = NaN"

fun fadd :: "pyfloat \<Rightarrow> pyfloat \<Rightarrow> pyfloat" where
  "fadd (Fin a) (Fin b) = Fin (a + b)"
| "fadd NaN _ = NaN"
| "fadd _ NaN = NaN"
| "fadd PInf NInf = NaN"
| "fadd NInf PInf = NaN"
| "fadd PInf _ = PInf"
| "fadd _ PInf = PInf"
| "fadd NInf _ = NInf"
| "fadd _ NInf = NInf"

definition fsub :: "pyfloat \<Rightarrow> pyfloat \<Rightarrow> pyfloat" where
  "fsub a b = fadd a (fneg b)"

text \<open>The sign of an infinite product or quotient: \<open>True\<close> is positive.\<close>

definition signed_inf :: "bool \<Rightarrow> pyfloat" where
  "signed_inf positive = (if positive then PInf else NInf)"

fun fmul :: "pyfloat \<Rightarrow> pyfloat \<Rightarrow> pyfloat" where
  "fmul (Fin a) (Fin b) = Fin (a * b)"
| "fmul NaN _ = NaN"
| "fmul _ NaN = NaN"
| "fmul (Fin a) PInf = (if a = 0 then NaN else signed_inf (0 < a))"
| "fmul (Fin a) NInf = (if a = 0 then NaN else signed_inf (a < 0))"
| "fmul PInf (Fin b) = (if b = 0 then NaN else signed_inf (0 < b))"
| "fmul NInf (Fin b) = (if b = 0 then NaN else signed_inf (b < 0))"
| "fmul PInf PInf = PInf"
| "fmul NInf NInf = PInf"
| "fmul PInf NInf = NInf"
| "fmul NInf PInf = NInf"

text \<open>\<^verbatim>\<open>a / b\<close>: Python raises \<^verbatim>\<open>ZeroDivisionError\<close> for every dividend when
  the divisor is zero.\<close>

fun fdiv :: "pyfloat \<Rightarrow> pyfloat \<Rightarrow> pyfloat option" where
  "fdiv (Fin a) (Fin b) = (if b = 0 then None else Some (Fin (a / b)))"
| "fdiv PInf (Fin b) = (if b = 0 then None else Some (signed_inf (0 < b)))"
| "fdiv NInf (Fin b) = (if b = 0 then None else Some (signed_inf (b < 0)))"
| "fdiv NaN (Fin b) = (if b = 0 then None else Some NaN)"
| "fdiv _ NaN = Some NaN"
| "fdiv (Fin a) PInf = Some (Fin 0)"
| "fdiv (Fin a) NInf = Some (Fin 0)"
| "fdiv _ PInf = Some NaN"
| "fdiv _ NInf = Some NaN"

text \<open>The builtins \<^verbatim>\<open>max(a, b)\<close> and \<^verbatim>\<open>min(a, b)\<close> keep the first argument
  unless the second compares strictly greater (smaller).\<close>

definition py_max :: "pyfloat \<Rightarrow> pyfloat \<Rightarrow> pyfloat" where
  "py_max a b = (if fgt b a then b else a)"

definition py_min :: "pyfloat \<Rightarrow> pyfloat \<Rightarrow> pyfloat" where
  "py_min a b = (if flt b a then b else a)"

text \<open>\<^verbatim>\<open>int(x)\<close> truncates towards zero and raises on a non-finite argument.\<close>

fun py_int :: "pyfloat \<Rightarrow> int option" where
  "py_int (Fin r) = Some (if 0 \<le> r then \<lfloor>r\<rfloor> else \<lceil>r\<rceil>)"
| "py_int _ = None"

section \<open>Weights and the clamp utility\<close>

record OmegaWeights =
  w_psi :: pyfloat
  w_theta :: pyfloat
  w_cvar :: pyfloat

text \<open>The dataclass defaults \<^verbatim>\<open>psi = 0.45, theta = 0.35, cvar = 0.20\<close>.\<close>

definition default_weights :: OmegaWeights where
  "default_weights = \<lparr>w_psi = Fin (45 / 100), w_theta = Fin (35 / 100), w_cvar = Fin (20 / 100)\<rparr>"

text \<open>\<^verbatim>\<open>OmegaWeights.normalized\<close> in exact arithmetic; \<open>normalized_ieee\<close> below is the
  same method with every operation rounded.\<close>

definition normalized :: "OmegaWeights \<Rightarrow> OmegaWeights option" where
  "normalized w =
     (let total = py_max (fadd (fadd (w_psi w) (w_theta w)) (w_cvar w)) (Fin (1 / 10 ^ 12))
      in do {
        a \<leftarrow> fdiv (w_psi w) total;
        b \<leftarrow> fdiv (w_theta w) total;
        c \<leftarrow> fdiv (w_cvar w) total;
        Some \<lparr>w_psi = a, w_theta = b, w_cvar = c\<rparr>
      })"

definition DEF_MIN :: pyfloat where
  "DEF_MIN = Fin 0"

definition DEF_MAX :: pyfloat where
  "DEF_MAX = Fin 1"

definition clamp :: "pyfloat \<Rightarrow> pyfloat \<Rightarrow> pyfloat \<Rightarrow> pyfloat" where
  "clamp v min_value max_value =
     (if \<not> isfinite v then min_value else py_max min_value (py_min max_value v))"

text \<open>\<^verbatim>\<open>_clamp(value)\<close> with the default bounds.\<close>

definition clamp01 :: "pyfloat \<Rightarrow> pyfloat" where
  "clamp01 v = clamp v DEF_MIN DEF_MAX"

section \<open>The scoring functions\<close>

definition compute_omega ::
  "pyfloat \<Rightarrow> pyfloat \<Rightarrow> pyfloat \<Rightarrow> OmegaWeights option \<Rightarrow> pyfloat option" where
  "compute_omega psi theta cvar weights =
     do {
       w \<leftarrow> normalized (case weights of None \<Rightarrow> default_weights | Some given \<Rightarrow> given);
       let safe_psi = clamp01 psi;
           safe_theta = clamp01 theta;
           safe_cvar = fsub (Fin 1) (clamp01 cvar);
           omega = fadd (fadd (fmul safe_psi (w_psi w)) (fmul safe_theta (w_theta w)))
                        (fmul safe_cvar (w_cvar w))
       in Some (clamp01 omega)
     }"

text \<open>The finite samples, in their order: the list \<^verbatim>\<open>clean\<close>.\<close>

fun finite_values :: "pyfloat list \<Rightarrow> real list" where
  "finite_values [] = []"
| "finite_values (Fin r # xs) = r # finite_values xs"
| "finite_values (_ # xs) = finite_values xs"

text \<open>\<^verbatim>\<open>sorted(clean, reverse=True)\<close>: a stable sort into descending order.\<close>

definition sorted_desc :: "real list \<Rightarrow> real list" where
  "sorted_desc xs = sort_key uminus xs"

text \<open>\<^verbatim>\<open>compute_qcvar\<close> in exact arithmetic; \<open>compute_qcvar_ieee\<close> below is the same
  function with every operation rounded.\<close>

definition compute_qcvar :: "pyfloat list \<Rightarrow> pyfloat \<Rightarrow> pyfloat option" where
  "compute_qcvar samples alpha =
     (let clamped_alpha = clamp alpha (Fin (1 / 10 ^ 6)) (fsub (Fin 1) (Fin (1 / 10 ^ 6)));
          clean = finite_values samples
      in if clean = [] then Some (Fin 0)
         else
           let sorted_values = sorted_desc clean in
           do {
             scaled \<leftarrow> py_int (fmul (Fin (real (length sorted_values))) (fsub (Fin 1) clamped_alpha));
             let tail_count = max 1 (scaled + 1);
                 tail_slice = take (nat tail_count) sorted_values
             in fdiv (Fin (sum_list tail_slice)) (Fin (real (length tail_slice)))
           })"

record barrier_result =
  omega_ok :: bool
  qcvar_ok :: bool
  br_production_ready :: bool
  br_omega_threshold :: pyfloat
  br_qcvar_limit :: pyfloat

definition validate_governance_barrier ::
  "pyfloat \<Rightarrow> pyfloat \<Rightarrow> pyfloat \<Rightarrow> pyfloat \<Rightarrow> barrier_result" where
  "validate_governance_barrier omega_score qcvar omega_threshold qcvar_limit =
     (let safe_threshold = clamp01 omega_threshold;
          safe_qcvar_limit = clamp01 qcvar_limit;
          ok_omega = fge (clamp01 omega_score) safe_threshold;
          ok_qcvar = fle (clamp01 qcvar) safe_qcvar_limit
      in \<lparr>omega_ok = ok_omega, qcvar_ok = ok_qcvar,
          br_production_ready = (ok_omega \<and> ok_qcvar),
          br_omega_threshold = safe_threshold, br_qcvar_limit = safe_qcvar_limit\<rparr>)"

record antifragile_result =
  improvement :: pyfloat
  is_antifragile :: bool
  antifragile_coefficient :: pyfloat

definition antifragile_metric :: "pyfloat \<Rightarrow> pyfloat \<Rightarrow> bool \<Rightarrow> antifragile_result" where
  "antifragile_metric before after stress_applied =
     (let safe_before = clamp01 before;
          safe_after = clamp01 after;
          delta = fsub safe_after safe_before;
          coefficient = (if stress_applied then delta else Fin 0)
      in \<lparr>improvement = delta,
          is_antifragile = (stress_applied \<and> fgt delta (Fin 0)),
          antifragile_coefficient = coefficient\<rparr>)"

section \<open>The specification's reading of the clamp\<close>

text \<open>
  The specification describes the clamp as a function into the interval between its
  bounds that sends every non-finite value to the lower bound. \<open>spec_clamp\<close> is that
  description, on reals; the lemmas below relate it to \<open>clamp\<close>, the source's function.
\<close>

definition spec_clamp :: "pyfloat \<Rightarrow> real \<Rightarrow> real \<Rightarrow> real" where
  "spec_clamp v lo hi = (case v of Fin r \<Rightarrow> max lo (min hi r) | _ \<Rightarrow> lo)"

section \<open>The specification's reading of the tail-mean estimator\<close>

text \<open>
  The tail size \<open>k = max(1, floor(n (1 - alpha')) + 1)\<close> for \<open>n\<close> finite samples, where
  \<open>alpha'\<close> is \<open>alpha\<close> clamped to the interval from \<open>1e-6\<close> to \<open>1 - 1e-6\<close>, and the mean of
  the top \<open>k\<close> values of the finite samples sorted descending (0.0 when there is none).
\<close>

definition spec_tail_size :: "nat \<Rightarrow> pyfloat \<Rightarrow> nat" where
  "spec_tail_size n alpha =
     nat (max 1 (\<lfloor>real n * (1 - spec_clamp alpha (1 / 10 ^ 6) (1 - 1 / 10 ^ 6))\<rfloor> + 1))"

text \<open>The finite samples of the statement: those that are a finite value, in order.\<close>

definition spec_finite :: "pyfloat list \<Rightarrow> real list" where
  "spec_finite samples = [r. Fin r \<leftarrow> samples]"

definition spec_qcvar :: "pyfloat list \<Rightarrow> pyfloat \<Rightarrow> real" where
  "spec_qcvar samples alpha =
     (let fs = spec_finite samples; k = spec_tail_size (length fs) alpha
      in if fs = [] then 0 else sum_list (take k (rev (sort fs))) / real k)"

text \<open>A float that is finite and lies in the closed interval from 0 to 1.\<close>

definition unit_interval :: "pyfloat \<Rightarrow> bool" where
  "unit_interval x = (case x of Fin r \<Rightarrow> 0 \<le> r \<and> r \<le> 1 | _ \<Rightarrow> False)"

section \<open>Binary64 rounding\<close>

text \<open>
  The scoring functions above take a finite float as an exact real, which is enough for
  their range and for the structure of the validator. Two properties depend on the
  rounding of the arithmetic itself: the size of the tail that \<^verbatim>\<open>compute_qcvar\<close>
  averages, and the sum of the normalized weights. For these the two functions are
  embedded a second time, below, with every arithmetic operation rounded as IEEE 754
  binary64 does it: to the nearest representable value, ties to the even significand,
  gradual underflow, overflow to an infinity. The two zeros are not distinguished
  (Python compares them equal, and no operation of the source tells them apart).

  \<open>round_even\<close> is rounding to the nearest integer, ties to even.
\<close>

definition round_even :: "real \<Rightarrow> int" where
  "round_even x =
     (let f = \<lfloor>x\<rfloor>; d = x - of_int f
      in if d < 1 / 2 then f else if 1 / 2 < d then f + 1 else if even f then f else f + 1)"

text \<open>The exponent of the last place of the binary64 values next to \<open>x\<close>: 52 places below
  the leading bit, and never below the subnormal spacing \<open>2 powr (- 1074)\<close>.\<close>

definition ulp_exponent :: "real \<Rightarrow> int" where
  "ulp_exponent x = max \<lfloor>log 2 \<bar>x\<bar>\<rfloor> (- 1022) - 52"

text \<open>Rounding to 53 significant bits, with no bound on the exponent from above.\<close>

definition round_unbounded :: "real \<Rightarrow> real" where
  "round_unbounded x =
     of_int (round_even (x / 2 powr of_int (ulp_exponent x))) * 2 powr of_int (ulp_exponent x)"

text \<open>The binary64 value of a real: the result of one correctly rounded operation, and
  the value of a decimal literal.\<close>

definition round_double :: "real \<Rightarrow> pyfloat" where
  "round_double x =
     (if x = 0 then Fin 0
      else if 2 ^ 1024 \<le> \<bar>round_unbounded x\<bar> then signed_inf (0 < x)
      else Fin (round_unbounded x))"

text \<open>\<^verbatim>\<open>a + b\<close>, \<^verbatim>\<open>a - b\<close>, \<^verbatim>\<open>a * b\<close> and \<^verbatim>\<open>a / b\<close> on floats, rounded.\<close>

fun fadd_ieee :: "pyfloat \<Rightarrow> pyfloat \<Rightarrow> pyfloat" where
  "fadd_ieee (Fin a) (Fin b) = round_double (a + b)"
| "fadd_ieee a b = fadd a b"

definition fsub_ieee :: "pyfloat \<Rightarrow> pyfloat \<Rightarrow> pyfloat" where
  "fsub_ieee a b = fadd_ieee a (fneg b)"

fun fmul_ieee :: "pyfloat \<Rightarrow> pyfloat \<Rightarrow> pyfloat" where
  "fmul_ieee (Fin a) (Fin b) = round_double (a * b)"
| "fmul_ieee a b = fmul a b"

fun fdiv_ieee :: "pyfloat \<Rightarrow> pyfloat \<Rightarrow> pyfloat option" where
  "fdiv_ieee (Fin a) (Fin b) = (if b = 0 then None else Some (round_double (a / b)))"
| "fdiv_ieee a b = fdiv a b"

text \<open>The conversion of an \<^verbatim>\<open>int\<close> operand to \<^verbatim>\<open>float\<close>, which raises
  \<^verbatim>\<open>OverflowError\<close> when the integer is beyond the largest float.\<close>

definition float_of_int :: "int \<Rightarrow> pyfloat option" where
  "float_of_int n = (case round_double (of_int n) of Fin r \<Rightarrow> Some (Fin r) | _ \<Rightarrow> None)"

section \<open>The weights and the tail mean in rounded arithmetic\<close>

text \<open>\<^verbatim>\<open>OmegaWeights.normalized\<close>, every operation rounded; \<^verbatim>\<open>1e-12\<close> is the binary64
  value of the literal.\<close>

definition normalized_ieee :: "OmegaWeights \<Rightarrow> OmegaWeights option" where
  "normalized_ieee w =
     (let total = py_max (fadd_ieee (fadd_ieee (w_psi w) (w_theta w)) (w_cvar w))
                         (round_double (1 / 10 ^ 12))
      in do {
        a \<leftarrow> fdiv_ieee (w_psi w) total;
        b \<leftarrow> fdiv_ieee (w_theta w) total;
        c \<leftarrow> fdiv_ieee (w_cvar w) total;
        Some \<lparr>w_psi = a, w_theta = b, w_cvar = c\<rparr>
      })"

text \<open>
  \<^verbatim>\<open>compute_qcvar\<close>, every operation rounded. The builtin \<^verbatim>\<open>sum\<close> is a parameter:
  how it adds a list of floats is the interpreter's choice (CPython adds left to right
  up to version 3.11 and uses a compensated summation from 3.12 on), and the properties
  proved below hold for every choice. The two \<^verbatim>\<open>len\<close> values are integers that the
  multiplication and the division convert to float.
\<close>

definition compute_qcvar_ieee ::
  "(real list \<Rightarrow> pyfloat) \<Rightarrow> pyfloat list \<Rightarrow> pyfloat \<Rightarrow> pyfloat option" where
  "compute_qcvar_ieee sum_builtin samples alpha =
     (let clamped_alpha = clamp alpha (round_double (1 / 10 ^ 6))
                                (fsub_ieee (Fin 1) (round_double (1 / 10 ^ 6)));
          clean = finite_values samples
      in if clean = [] then Some (Fin 0)
         else
           let sorted_values = sorted_desc clean in
           do {
             n \<leftarrow> float_of_int (int (length sorted_values));
             scaled \<leftarrow> py_int (fmul_ieee n (fsub_ieee (Fin 1) clamped_alpha));
             let tail_count = max 1 (scaled + 1);
                 tail_slice = take (nat tail_count) sorted_values
             in do {
               m \<leftarrow> float_of_int (int (length tail_slice));
               fdiv_ieee (sum_builtin tail_slice) m
             }
           })"

text \<open>\<^verbatim>\<open>sum\<close> as a left-to-right float addition that starts from the integer 0.\<close>

definition left_sum :: "real list \<Rightarrow> pyfloat" where
  "left_sum xs = foldl fadd_ieee (Fin 0) (map Fin xs)"

section \<open>The tail-mean estimator with a rounded tail size\<close>

text \<open>
  The statement of the tail mean, read with the arithmetic of the floats: for \<open>n\<close> finite
  samples the tail size is \<open>k = max(1, floor(n * (1 - alpha')) + 1)\<close>, where the
  difference and the product are each rounded to binary64 and \<open>alpha'\<close> is \<open>alpha\<close>
  clamped between the binary64 values of \<^verbatim>\<open>1e-6\<close> and of \<^verbatim>\<open>1 - 1e-6\<close>, which are
  \<open>4722366482869645 / 2 ^ 72\<close> and \<open>9007190247541737 / 2 ^ 53\<close>; the result is the float
  quotient of the sum of the top \<open>k\<close> finite samples, sorted descending, by \<open>k\<close>.
\<close>

definition float_tail_size :: "nat \<Rightarrow> pyfloat \<Rightarrow> nat" where
  "float_tail_size n alpha =
     (let a = spec_clamp alpha (4722366482869645 / 2 ^ 72) (9007190247541737 / 2 ^ 53)
      in case fmul_ieee (round_double (real n)) (round_double (1 - a)) of
           Fin p \<Rightarrow> nat (max 1 (\<lfloor>p\<rfloor> + 1))
         | _ \<Rightarrow> 0)"

definition spec_qcvar_ieee ::
  "(real list \<Rightarrow> pyfloat) \<Rightarrow> pyfloat list \<Rightarrow> pyfloat \<Rightarrow> pyfloat option" where
  "spec_qcvar_ieee sum_builtin samples alpha =
     (let fs = spec_finite samples; k = float_tail_size (length fs) alpha
      in if fs = [] then Some (Fin 0)
         else fdiv_ieee (sum_builtin (take k (rev (sort fs)))) (round_double (real k)))"

section \<open>The rolling validator\<close>

text \<open>
  The evaluation records are Python dictionaries, which are mutable objects held by
  reference. They live in a heap: a list of dictionaries, an address being an index.
  Allocation appends, so addresses are never reused. A dictionary is an association
  list in insertion order.
\<close>

type_synonym addr = nat

type_synonym pydict = "(string \<times> pyfloat) list"

type_synonym heap = "pydict list"

definition alloc :: "heap \<Rightarrow> pydict \<Rightarrow> addr \<times> heap" where
  "alloc hp d = (length hp, hp @ [d])"

text \<open>
  The validator object. \<open>history\<close> is \<^verbatim>\<open>_history\<close>, a list of references to the
  records; \<open>omega_history\<close> and \<open>cvar_history\<close> are the two lists of floats. The three
  list objects themselves are created in the constructor and never handed out.
\<close>

record OmegaValidator =
  omega_threshold :: pyfloat
  qcvar_limit :: pyfloat
  qcvar_alpha :: pyfloat
  max_history :: int
  min_samples :: int
  history :: "addr list"
  omega_history :: "pyfloat list"
  cvar_history :: "pyfloat list"

text \<open>\<^verbatim>\<open>__init__\<close>, with \<^verbatim>\<open>max_history\<close> and \<^verbatim>\<open>min_samples\<close> given as integers.\<close>

definition OmegaValidator_init ::
  "pyfloat \<Rightarrow> pyfloat \<Rightarrow> pyfloat \<Rightarrow> int \<Rightarrow> int \<Rightarrow> OmegaValidator" where
  "OmegaValidator_init omega_threshold' qcvar_limit' qcvar_alpha' max_history' min_samples' =
     \<lparr>omega_threshold = clamp01 omega_threshold',
      qcvar_limit = clamp01 qcvar_limit',
      qcvar_alpha = clamp qcvar_alpha' (Fin (1 / 10 ^ 6)) (fsub (Fin 1) (Fin (1 / 10 ^ 6))),
      max_history = max 1 max_history',
      min_samples = max 1 min_samples',
      history = [],
      omega_history = [],
      cvar_history = []\<rparr>"

text \<open>
  One loop of \<^verbatim>\<open>_trim_history\<close>: \<^verbatim>\<open>while len(xs) > m: xs.pop(0)\<close>.
  \<^verbatim>\<open>pop(0)\<close> raises \<^verbatim>\<open>IndexError\<close> on an empty list.
\<close>

function trim_loop :: "'a list \<Rightarrow> int \<Rightarrow> 'a list option" where
  "trim_loop xs m =
     (if int (length xs) > m
      then (case xs of [] \<Rightarrow> None | x # rest \<Rightarrow> trim_loop rest m)
      else Some xs)"
  by pat_completeness auto
termination
  by (relation "measure (\<lambda>(xs, m). length xs)") auto

declare trim_loop.simps [simp del]

definition trim_history :: "OmegaValidator \<Rightarrow> OmegaValidator option" where
  "trim_history self =
     do {
       h \<leftarrow> trim_loop (history self) (max_history self);
       oh \<leftarrow> trim_loop (omega_history self) (max_history self);
       ch \<leftarrow> trim_loop (cvar_history self) (max_history self);
       Some (self\<lparr>history := h, omega_history := oh, cvar_history := ch\<rparr>)
     }"

definition compute_qcvar_history :: "OmegaValidator \<Rightarrow> pyfloat option" where
  "compute_qcvar_history self = compute_qcvar (cvar_history self) (qcvar_alpha self)"

record validation_result =
  vr_omega :: pyfloat
  vr_qcvar :: pyfloat
  vr_production_ready :: bool
  history_size :: nat

definition validate_system ::
  "heap \<Rightarrow> OmegaValidator \<Rightarrow> pyfloat \<Rightarrow> pyfloat \<Rightarrow> pyfloat \<Rightarrow> OmegaWeights option
     \<Rightarrow> (validation_result \<times> heap \<times> OmegaValidator) option" where
  "validate_system hp self psi theta cvar weights =
     do {
       omega \<leftarrow> compute_omega psi theta cvar weights;
       let safe_cvar = clamp01 cvar;
           entry = [(''psi'', clamp01 psi), (''theta'', clamp01 theta),
                    (''cvar'', safe_cvar), (''omega'', omega)];
           (a, hp') = alloc hp entry;
           appended = self\<lparr>history := history self @ [a],
                           omega_history := omega_history self @ [omega],
                           cvar_history := cvar_history self @ [safe_cvar]\<rparr>
       in do {
         self' \<leftarrow> trim_history appended;
         qcvar_value \<leftarrow> compute_qcvar_history self';
         let readiness = validate_governance_barrier omega qcvar_value
                           (omega_threshold self') (qcvar_limit self')
         in Some (\<lparr>vr_omega = omega, vr_qcvar = qcvar_value,
                    vr_production_ready = br_production_ready readiness,
                    history_size = length (history self')\<rparr>, hp', self')
       }
     }"

record system_health =
  latest_omega :: pyfloat
  sh_qcvar :: pyfloat
  sh_production_ready :: bool
  sample_count :: nat

definition get_system_health :: "OmegaValidator \<Rightarrow> system_health option" where
  "get_system_health self =
     do {
       qcvar_value \<leftarrow> (if cvar_history self \<noteq> [] then compute_qcvar_history self
                        else Some (Fin 0));
       let newest = (if omega_history self \<noteq> [] then last (omega_history self) else Fin 0);
           ready = br_production_ready
                     (validate_governance_barrier newest qcvar_value
                        (omega_threshold self) (qcvar_limit self))
       in Some \<lparr>latest_omega = newest, sh_qcvar = qcvar_value,
                 sh_production_ready =
                   (if int (length (history self)) \<ge> min_samples self then ready else False),
                 sample_count = length (history self)\<rparr>
     }"

text \<open>\<^verbatim>\<open>[dict(entry) for entry in self._history]\<close>: every record is copied into a
  new dictionary; the result is the list of the new references.\<close>

fun copy_all :: "heap \<Rightarrow> addr list \<Rightarrow> addr list \<times> heap" where
  "copy_all hp [] = ([], hp)"
| "copy_all hp (a # rest) =
     (let (b, hp') = alloc hp (hp ! a);
          (bs, hp'') = copy_all hp' rest
      in (b # bs, hp''))"

record validation_summary =
  latest :: addr
  summary_history :: "addr list"
  vs_qcvar :: pyfloat
  vs_omega_threshold :: pyfloat
  vs_qcvar_limit :: pyfloat

definition get_validation_summary ::
  "heap \<Rightarrow> OmegaValidator \<Rightarrow> (validation_summary \<times> heap) option" where
  "get_validation_summary hp self =
     (let (history_copy, hp') = copy_all hp (history self);
          (newest, hp'') = (if history_copy \<noteq> [] then (last history_copy, hp')
                            else alloc hp' [])
      in do {
        qcvar_value \<leftarrow> (if cvar_history self \<noteq> [] then compute_qcvar_history self
                         else Some (Fin 0));
        Some (\<lparr>latest = newest, summary_history = history_copy, vs_qcvar = qcvar_value,
                 vs_omega_threshold = omega_threshold self,
                 vs_qcvar_limit = qcvar_limit self\<rparr>, hp'')
      })"

definition reset :: "OmegaValidator \<Rightarrow> OmegaValidator" where
  "reset self = self\<lparr>history := [], omega_history := [], cvar_history := []\<rparr>"

subsection \<open>Runs of the validator and of its caller\<close>

text \<open>
  A world is a heap, a validator and the set of addresses its caller holds. The caller
  constructs the validator, calls its methods, and may change or create any dictionary
  it holds a reference to. \<open>validate_system\<close> and \<open>get_system_health\<close> return fresh
  mappings of plain values; \<open>get_validation_summary\<close> returns references, which the
  caller then holds.
\<close>

inductive reachable :: "heap \<Rightarrow> OmegaValidator \<Rightarrow> addr set \<Rightarrow> bool" where
  construct:
    "reachable hp (OmegaValidator_init thr lmt alpha mh ms) {..<length hp}"
| validate:
    "reachable hp v K \<Longrightarrow> validate_system hp v psi theta cvar weights = Some (r, hp', v')
       \<Longrightarrow> reachable hp' v' K"
| summary:
    "reachable hp v K \<Longrightarrow> get_validation_summary hp v = Some (s, hp')
       \<Longrightarrow> reachable hp' v (K \<union> set (summary_history s) \<union> {latest s})"
| cleared:
    "reachable hp v K \<Longrightarrow> reachable hp (reset v) K"
| caller_update:
    "reachable hp v K \<Longrightarrow> a \<in> K \<Longrightarrow> reachable (hp[a := d]) v K"
| caller_alloc:
    "reachable hp v K \<Longrightarrow> reachable (hp @ [d]) v (K \<union> {length hp})"

text \<open>The records the validator stores, read through its references.\<close>

definition stored_records :: "heap \<Rightarrow> OmegaValidator \<Rightarrow> pydict list" where
  "stored_records hp v = map (\<lambda>a. hp ! a) (history v)"

text \<open>The last \<open>n\<close> elements of a list: what is left after the oldest are evicted.\<close>

definition lastn :: "nat \<Rightarrow> 'a list \<Rightarrow> 'a list" where
  "lastn n xs = drop (length xs - n) xs"

text \<open>A sequence of \<open>validate_system\<close> calls, with the results in call order.\<close>

type_synonym call = "pyfloat \<times> pyfloat \<times> pyfloat \<times> OmegaWeights option"

fun validate_many ::
  "heap \<Rightarrow> OmegaValidator \<Rightarrow> call list
     \<Rightarrow> (validation_result list \<times> heap \<times> OmegaValidator) option" where
  "validate_many hp v [] = Some ([], hp, v)"
| "validate_many hp v ((psi, theta, cvar, weights) # cs) =
     (case validate_system hp v psi theta cvar weights of
        None \<Rightarrow> None
      | Some (r, hp', v') \<Rightarrow>
          (case validate_many hp' v' cs of
             None \<Rightarrow> None
           | Some (rs, hp'', v'') \<Rightarrow> Some (r # rs, hp'', v'')))"

text \<open>The record a call stores: its clamped inputs and the omega it returned.\<close>

definition record_of :: "call \<Rightarrow> validation_result \<Rightarrow> pydict" where
  "record_of c r =
     (case c of (psi, theta, cvar, weights) \<Rightarrow>
        [(''psi'', clamp01 psi), (''theta'', clamp01 theta),
         (''cvar'', clamp01 cvar), (''omega'', vr_omega r)])"


subsection \<open>An example run\<close>

text \<open>A validator with the default thresholds, \<open>max_history = 100\<close> and
  \<open>min_samples = 3\<close>, and the record of a call with \<open>psi = 0.9\<close>, \<open>theta = 0.9\<close>,
  \<open>cvar = 0.05\<close> and the default weights.\<close>

abbreviation ex_entry :: pydict where
  "ex_entry \<equiv> [(''psi'', Fin (9 / 10)), (''theta'', Fin (9 / 10)),
                 (''cvar'', Fin (1 / 20)), (''omega'', Fin (91 / 100))]"

abbreviation ex_validator :: "addr list \<Rightarrow> pyfloat list \<Rightarrow> pyfloat list \<Rightarrow> OmegaValidator" where
  "ex_validator h oh ch \<equiv>
     \<lparr>omega_threshold = Fin (9 / 10), qcvar_limit = Fin (1 / 10),
       qcvar_alpha = Fin (9 / 10), max_history = 100, min_samples = 3,
       history = h, omega_history = oh, cvar_history = ch\<rparr>"

text \<open>
  What every run preserves: the bounds are at least 1, the three sequences have one
  length, which is at most \<open>max_history\<close>, every stored cvar is in the unit interval,
  every stored reference is allocated and not held by the caller, and the caller holds
  allocated addresses only.
\<close>

definition validator_inv :: "heap \<Rightarrow> OmegaValidator \<Rightarrow> addr set \<Rightarrow> bool" where
  "validator_inv hp v K =
     (1 \<le> max_history v \<and> 1 \<le> min_samples v
      \<and> length (omega_history v) = length (history v)
      \<and> length (cvar_history v) = length (history v)
      \<and> int (length (history v)) \<le> max_history v
      \<and> list_all unit_interval (cvar_history v)
      \<and> list_all (\<lambda>a. a < length hp \<and> a \<notin> K) (history v)
      \<and> K \<subseteq> {..<length hp})"

section \<open>Properties of the clamp and of the weights\<close>

lemma clamp_Fin: "lo \<le> hi \<Longrightarrow> clamp v (Fin lo) (Fin hi) = Fin (spec_clamp v lo hi)"
  by (cases v) (auto simp: clamp_def spec_clamp_def py_max_def py_min_def fgt_def)

lemma clamp01_Fin: "clamp01 v = Fin (spec_clamp v 0 1)"
  by (simp add: clamp01_def DEF_MIN_def DEF_MAX_def clamp_Fin)

lemma spec_clamp_bounds: "lo \<le> hi \<Longrightarrow> lo \<le> spec_clamp v lo hi \<and> spec_clamp v lo hi \<le> hi"
  by (cases v) (auto simp: spec_clamp_def)

lemma fdiv_total: "b \<noteq> Fin 0 \<Longrightarrow> \<exists>y. fdiv a b = Some y"
  by (cases a; cases b) auto

lemma total_nonzero: "py_max s (Fin (1 / 10 ^ 12)) \<noteq> Fin 0"
  by (cases s) (auto simp: py_max_def fgt_def)

text \<open>\<open>normalized\<close> never divides by zero, whatever the weights are.\<close>

lemma normalized_total: "\<exists>n. normalized w = Some n"
proof -
  define t where "t = py_max (fadd (fadd (w_psi w) (w_theta w)) (w_cvar w)) (Fin (1 / 10 ^ 12))"
  have nz: "t \<noteq> Fin 0" unfolding t_def by (rule total_nonzero)
  obtain a b c where "fdiv (w_psi w) t = Some a" "fdiv (w_theta w) t = Some b"
    "fdiv (w_cvar w) t = Some c"
    using fdiv_total[OF nz] by meson
  then show ?thesis unfolding normalized_def Let_def t_def[symmetric] by simp
qed

section \<open>Properties of binary64 rounding\<close>

text \<open>Rounding to the nearest integer is off by at most one half, and it is determined
  by any integer closer than one half.\<close>

lemma round_even_err: "\<bar>of_int (round_even z) - z\<bar> \<le> 1 / 2"
  using floor_correct[of z] unfolding round_even_def Let_def by (auto; linarith)

lemma round_even_unique: "\<bar>z - of_int m\<bar> < 1 / 2 \<Longrightarrow> round_even z = m"
proof -
  assume a: "\<bar>z - of_int m\<bar> < 1 / 2"
  show ?thesis
  proof (cases "of_int m \<le> z")
    case True
    then have "\<lfloor>z\<rfloor> = m" using a by (intro floor_unique) auto
    then show ?thesis using a True by (simp add: round_even_def Let_def)
  next
    case False
    then have f: "\<lfloor>z\<rfloor> = m - 1" using a by (intro floor_unique) auto
    show ?thesis using a False unfolding round_even_def Let_def f by auto
  qed
qed

lemma round_even_of_int: "round_even (of_int m) = m"
  by (rule round_even_unique) simp

lemma round_even_nonneg: "0 \<le> z \<Longrightarrow> 0 \<le> round_even z"
  unfolding round_even_def Let_def by (auto simp: zero_le_floor)

lemma round_even_nonpos: "z \<le> 0 \<Longrightarrow> round_even z \<le> 0"
proof -
  assume "z \<le> 0"
  have "of_int (round_even z) \<le> z + 1 / 2" using round_even_err[of z] by linarith
  then have "(of_int (round_even z) :: real) < 1" using \<open>z \<le> 0\<close> by linarith
  then show ?thesis by linarith
qed

lemma floor_log2_bounds:
  assumes "0 < x"
  shows "2 powr of_int \<lfloor>log 2 x\<rfloor> \<le> x \<and> x < 2 powr (of_int \<lfloor>log 2 x\<rfloor> + 1)"
  using floor_log_eq_powr_iff[of x 2 "\<lfloor>log 2 x\<rfloor>"] assms by simp

lemma floor_log2_eq:
  assumes "2 powr of_int k \<le> x" and "x < 2 powr (of_int k + 1)"
  shows "\<lfloor>log 2 x\<rfloor> = k"
proof -
  have "0 < x" using assms(1) powr_gt_zero[of 2 "of_int k"] by linarith
  then show ?thesis using floor_log_eq_powr_iff[of x 2 k] assms by simp
qed

text \<open>One rounding is off by at most half a unit in the last place: a relative error of
  \<open>2 powr (- 53)\<close>, or \<open>2 powr (- 1075)\<close> in the subnormal range.\<close>

lemma round_unbounded_err:
  "\<bar>round_unbounded x - x\<bar> \<le> 2 powr of_int (ulp_exponent x) / 2"
proof -
  define p :: real where "p = 2 powr of_int (ulp_exponent x)"
  have p: "0 < p" unfolding p_def by simp
  have "round_unbounded x - x = (of_int (round_even (x / p)) - x / p) * p"
    using p unfolding round_unbounded_def p_def[symmetric] by (simp add: algebra_simps)
  then have "\<bar>round_unbounded x - x\<bar> = \<bar>of_int (round_even (x / p)) - x / p\<bar> * p"
    using p by (simp add: abs_mult)
  also have "\<dots> \<le> 1 / 2 * p"
    using round_even_err[of "x / p"] p by (intro mult_right_mono) auto
  finally show ?thesis unfolding p_def by simp
qed

lemma ulp_exponent_bound:
  assumes "x \<noteq> 0"
  shows "2 powr of_int (ulp_exponent x) / 2 \<le> \<bar>x\<bar> / 2 ^ 53 + 1 / 2 ^ 1075"
proof (cases "- 1022 \<le> \<lfloor>log 2 \<bar>x\<bar>\<rfloor>")
  case True
  define l where "l = \<lfloor>log 2 \<bar>x\<bar>\<rfloor>"
  have e: "ulp_exponent x = l - 52" using True unfolding ulp_exponent_def l_def by simp
  have "2 powr of_int l \<le> \<bar>x\<bar>" unfolding l_def using floor_log2_bounds[of "\<bar>x\<bar>"] assms by simp
  moreover have "(2::real) powr of_int (l - 52) = 2 powr of_int l / 2 ^ 52"
    by (simp add: powr_diff)
  ultimately have "2 powr of_int (ulp_exponent x) / 2 \<le> \<bar>x\<bar> / 2 ^ 53"
    unfolding e by (simp add: field_simps)
  moreover have "(0::real) \<le> 1 / 2 ^ 1075" by simp
  ultimately show ?thesis by linarith
next
  case False
  then have e: "ulp_exponent x = - 1074" unfolding ulp_exponent_def by simp
  have "(2::real) powr of_int (- 1074) = 1 / 2 ^ 1074"
    by (simp add: powr_minus_divide)
  then have "(2::real) powr of_int (ulp_exponent x) / 2 = 1 / 2 ^ 1075" unfolding e by simp
  then show ?thesis by simp
qed

lemma round_unbounded_bound:
  "\<bar>round_unbounded x - x\<bar> \<le> \<bar>x\<bar> / 2 ^ 53 + 1 / 2 ^ 1075"
proof (cases "x = 0")
  case True
  then show ?thesis by (simp add: round_unbounded_def round_even_def)
next
  case False
  then show ?thesis using round_unbounded_err[of x] ulp_exponent_bound[of x] by linarith
qed

lemma round_double_err:
  assumes "round_double x = Fin r"
  shows "\<bar>r - x\<bar> \<le> \<bar>x\<bar> / 2 ^ 53 + 1 / 2 ^ 1075"
proof (cases "x = 0")
  case True
  then show ?thesis using assms by (simp add: round_double_def)
next
  case False
  then have "r = round_unbounded x"
    using assms unfolding round_double_def signed_inf_def by (auto split: if_splits)
  then show ?thesis using round_unbounded_bound[of x] by simp
qed

lemma round_double_finite:
  assumes "\<bar>x\<bar> < 2 ^ 1023"
  shows "round_double x = Fin (round_unbounded x)"
proof (cases "x = 0")
  case True
  then show ?thesis by (simp add: round_double_def round_unbounded_def round_even_def)
next
  case False
  have "\<bar>round_unbounded x\<bar> \<le> \<bar>x\<bar> + \<bar>x\<bar> / 2 ^ 53 + 1 / 2 ^ 1075"
    using round_unbounded_bound[of x] by linarith
  also have "\<dots> < 2 ^ 1023 + 2 ^ 1023 / 2 ^ 53 + 1 / 2 ^ 1075"
    using assms by (intro add_strict_right_mono add_strict_mono) (auto simp: divide_strict_right_mono)
  also have "\<dots> \<le> (2 ^ 1024 :: real)" by simp
  finally show ?thesis using False unfolding round_double_def by simp
qed

lemma round_unbounded_nonneg: "0 \<le> x \<Longrightarrow> 0 \<le> round_unbounded x"
  unfolding round_unbounded_def by (simp add: round_even_nonneg)

lemma round_unbounded_nonpos: "x \<le> 0 \<Longrightarrow> round_unbounded x \<le> 0"
  unfolding round_unbounded_def
  by (simp add: round_even_nonpos mult_nonpos_nonneg divide_nonpos_pos)

lemma round_double_nonneg: "0 \<le> x \<Longrightarrow> round_double x = Fin r \<Longrightarrow> 0 \<le> r"
  unfolding round_double_def signed_inf_def
  by (auto split: if_splits simp: round_unbounded_nonneg)

lemma round_double_zero: "round_double 0 = Fin 0"
  by (simp add: round_double_def)

text \<open>How to evaluate a rounding: name the exponent and the integer significand. A value
  with a significand of at most 53 bits is its own rounding.\<close>

lemma ulp_exponent_normal:
  assumes "2 powr (of_int e + 52) \<le> \<bar>x\<bar>" and "\<bar>x\<bar> < 2 powr (of_int e + 53)" and "- 1074 \<le> e"
  shows "ulp_exponent x = e"
proof -
  have "\<lfloor>log 2 \<bar>x\<bar>\<rfloor> = e + 52"
    using assms(1,2) by (intro floor_log2_eq) (simp_all add: add.commute add.left_commute)
  then show ?thesis using assms(3) unfolding ulp_exponent_def by simp
qed

lemma round_unbounded_eval:
  assumes "2 powr (of_int e + 52) \<le> \<bar>x\<bar>" and "\<bar>x\<bar> < 2 powr (of_int e + 53)" and "- 1074 \<le> e"
    and "\<bar>x / 2 powr of_int e - of_int m\<bar> < 1 / 2"
  shows "round_unbounded x = of_int m * 2 powr of_int e"
  unfolding round_unbounded_def ulp_exponent_normal[OF assms(1-3)] round_even_unique[OF assms(4)] ..

lemma round_double_down:
  assumes "2 ^ 52 \<le> \<bar>x\<bar> * 2 ^ j" and "\<bar>x\<bar> * 2 ^ j < 2 ^ 53" and "j \<le> 1074"
    and "\<bar>x * 2 ^ j - of_int m\<bar> < 1 / 2"
  shows "round_double x = Fin (of_int m / 2 ^ j)"
proof -
  define e where "e = - int j"
  have pe: "(2::real) powr of_int e = 1 / 2 ^ j"
    unfolding e_def by (simp add: powr_minus_divide powr_realpow)
  have p52: "(2::real) powr (of_int e + 52) = 2 ^ 52 / 2 ^ j"
    by (simp add: powr_add pe)
  have p53: "(2::real) powr (of_int e + 53) = 2 ^ 53 / 2 ^ j"
    by (simp add: powr_add pe)
  have a1: "2 powr (of_int e + 52) \<le> \<bar>x\<bar>"
    unfolding p52 using assms(1) by (simp add: field_simps)
  have a2: "\<bar>x\<bar> < 2 powr (of_int e + 53)"
    unfolding p53 using assms(2) by (simp add: field_simps)
  have a3: "- 1074 \<le> e" using assms(3) unfolding e_def by simp
  have a4: "\<bar>x / 2 powr of_int e - of_int m\<bar> < 1 / 2"
    unfolding pe using assms(4) by simp
  have u: "round_unbounded x = of_int m / 2 ^ j"
    using round_unbounded_eval[OF a1 a2 a3 a4] unfolding pe by simp
  have "\<bar>x\<bar> * 1 \<le> \<bar>x\<bar> * 2 ^ j" by (intro mult_left_mono) auto
  then have "\<bar>x\<bar> < 2 ^ 53" using assms(2) by simp
  also have "\<dots> < (2 ^ 1023 :: real)" by simp
  finally show ?thesis using round_double_finite[of x] u by simp
qed

lemma round_unbounded_exact:
  assumes "x = of_int m * 2 powr of_int i" and "\<bar>m\<bar> < 2 ^ 53" and "- 1074 \<le> i"
  shows "round_unbounded x = x"
proof (cases "m = 0")
  case True
  then show ?thesis using assms(1) by (simp add: round_unbounded_def round_even_def)
next
  case False
  define e where "e = ulp_exponent x"
  define l where "l = \<lfloor>log 2 \<bar>x\<bar>\<rfloor>"
  have x0: "0 < \<bar>x\<bar>" using False assms(1) by simp
  have "\<bar>x\<bar> = \<bar>of_int m\<bar> * 2 powr of_int i" using assms(1) by (simp add: abs_mult)
  also have "\<dots> < 2 ^ 53 * 2 powr of_int i"
    using assms(2) by (intro mult_strict_right_mono) (auto simp flip: of_int_abs)
  also have "\<dots> = 2 powr (of_int i + 53)" by (simp add: powr_add)
  finally have ub: "\<bar>x\<bar> < 2 powr (of_int i + 53)" .
  have "2 powr of_int l \<le> \<bar>x\<bar>" unfolding l_def using floor_log2_bounds[OF x0] by simp
  then have "(2::real) powr of_int l < 2 powr (of_int i + 53)" using ub by linarith
  then have "of_int l < (of_int i + 53 :: real)" by simp
  then have "l < i + 53" by linarith
  then have ei: "e \<le> i" using assms(3) unfolding e_def ulp_exponent_def l_def[symmetric] by simp
  define n where "n = nat (i - e)"
  have n: "of_int i = of_int e + real n" using ei unfolding n_def by simp
  have "(2::real) powr of_int i = 2 powr of_int e * 2 ^ n"
    unfolding n by (simp add: powr_add powr_realpow)
  then have q: "x / 2 powr of_int e = of_int (m * 2 ^ n)"
    using assms(1) by simp
  have "round_unbounded x = of_int (m * 2 ^ n) * 2 powr of_int e"
    unfolding round_unbounded_def e_def[symmetric] q round_even_of_int ..
  also have "\<dots> = x" using q by (simp add: field_simps)
  finally show ?thesis .
qed

lemma round_double_dyadic:
  assumes "\<bar>m\<bar> < 2 ^ 53" and "j \<le> 1074"
  shows "round_double (of_int m / 2 ^ j) = Fin (of_int m / 2 ^ j)"
proof -
  define x :: real where "x = of_int m / 2 ^ j"
  have pe: "(2::real) powr of_int (- int j) = 1 / 2 ^ j"
    by (simp add: powr_minus_divide powr_realpow)
  have x: "x = of_int m * 2 powr of_int (- int j)" unfolding pe x_def by simp
  have u: "round_unbounded x = x"
    using x assms by (intro round_unbounded_exact[of x m "- int j"]) auto
  have "\<bar>x\<bar> = \<bar>of_int m\<bar> / 2 ^ j" unfolding x_def by (simp add: abs_divide) 
  also have "\<dots> \<le> \<bar>of_int m\<bar> / 1" by (intro divide_left_mono) auto
  also have "\<dots> < 2 ^ 53" using assms(1) by (simp flip: of_int_abs)
  also have "\<dots> < (2 ^ 1023 :: real)" by simp
  finally show ?thesis using round_double_finite[of x] u unfolding x_def by simp
qed

lemma round_double_int: "\<bar>m\<bar> < 2 ^ 53 \<Longrightarrow> round_double (of_int m) = Fin (of_int m)"
  using round_double_dyadic[of m 0] by simp

lemma round_double_overflow: "round_double (2 ^ 1024) = PInf"
proof -
  have "round_unbounded (2 ^ 1024) = 2 ^ 1024"
    by (rule round_unbounded_exact[of _ 1 1024]) simp_all
  then show ?thesis by (simp add: round_double_def signed_inf_def)
qed

section \<open>The normalized weights\<close>

text \<open>The binary64 values of the literals \<^verbatim>\<open>1e-12\<close>, \<^verbatim>\<open>1e-13\<close> and \<^verbatim>\<open>0.1\<close>, and
  the float quotient of the second by the first.\<close>

lemma literal_1e12: "round_double (1 / 10 ^ 12) = Fin (4951760157141521 / 2 ^ 92)"
  using round_double_down[of "1 / 10 ^ 12" 92 4951760157141521] by simp

lemma literal_1e13: "round_double (1 / 10 ^ 13) = Fin (3961408125713217 / 2 ^ 95)"
  using round_double_down[of "1 / 10 ^ 13" 96 7922816251426434] by simp

lemma literal_1e1: "round_double (1 / 10) = Fin (7205759403792794 / 2 ^ 56)"
  using round_double_down[of "1 / 10" 56 7205759403792794] by simp

lemma quotient_1e13_1e12:
  "round_double (3961408125713217 / 2 ^ 95 / (4951760157141521 / 2 ^ 92))
     = Fin (7205759403792794 / 2 ^ 56)"
  using round_double_down[of "3961408125713217 / 2 ^ 95 / (4951760157141521 / 2 ^ 92)" 56
      7205759403792794] by simp

lemma fin_eval:
  "round_double (3961408125713217 / 2 ^ 95) = Fin (3961408125713217 / 2 ^ 95)"
  using round_double_dyadic[of 3961408125713217 95] by simp

text \<open>Weights that are finite and whose float total is not: the total overflows to
  infinity and every component becomes 0.0.\<close>

lemma normalized_ieee_overflow:
  "normalized_ieee \<lparr>w_psi = Fin (2 ^ 1023), w_theta = Fin (2 ^ 1023), w_cvar = Fin 0\<rparr>
     = Some \<lparr>w_psi = Fin 0, w_theta = Fin 0, w_cvar = Fin 0\<rparr>"
proof -
  have "fadd_ieee (Fin (2 ^ 1023)) (Fin (2 ^ 1023)) = PInf"
    using round_double_overflow by simp
  then show ?thesis
    unfolding normalized_ieee_def literal_1e12
    by (simp add: py_max_def fgt_def)
qed

text \<open>
  Claim C7 says that the normalized components sum to 1, within floating tolerance,
  whenever the weights are non-negative and not all zero. The denominator is
  \<^verbatim>\<open>max(total, 1e-12)\<close>: weights whose total is below that floor are divided by the
  floor, not by their total. \<^verbatim>\<open>OmegaWeights(1e-13, 0.0, 0.0).normalized()\<close> is
  \<^verbatim>\<open>OmegaWeights(0.1, 0.0, 0.0)\<close>, whose components sum to 0.1. And weights whose
  float total overflows are divided by infinity:
  \<^verbatim>\<open>OmegaWeights(2.0**1023, 2.0**1023, 0.0).normalized()\<close> is
  \<^verbatim>\<open>OmegaWeights(0.0, 0.0, 0.0)\<close>, whose components sum to 0.
\<close>

theorem normalized_ieee_floor_counterexample:
  "normalized_ieee \<lparr>w_psi = round_double (1 / 10 ^ 13), w_theta = Fin 0, w_cvar = Fin 0\<rparr>
     = Some \<lparr>w_psi = round_double (1 / 10), w_theta = Fin 0, w_cvar = Fin 0\<rparr>
   \<and> round_double (1 / 10 ^ 13) = Fin (3961408125713217 / 2 ^ 95)
   \<and> round_double (1 / 10) = Fin (7205759403792794 / 2 ^ 56)
   \<and> \<bar>7205759403792794 / 2 ^ 56 + 0 + 0 - 1 :: real\<bar> > 8 / 10
   \<and> normalized_ieee \<lparr>w_psi = Fin (2 ^ 1023), w_theta = Fin (2 ^ 1023), w_cvar = Fin 0\<rparr>
     = Some \<lparr>w_psi = Fin 0, w_theta = Fin 0, w_cvar = Fin 0\<rparr>
   \<and> fadd_ieee (fadd_ieee (Fin 0) (Fin 0)) (Fin 0) = Fin 0"
proof -
  have "normalized_ieee \<lparr>w_psi = Fin (3961408125713217 / 2 ^ 95), w_theta = Fin 0, w_cvar = Fin 0\<rparr>
     = Some \<lparr>w_psi = Fin (7205759403792794 / 2 ^ 56), w_theta = Fin 0, w_cvar = Fin 0\<rparr>"
    unfolding normalized_ieee_def literal_1e12
    using quotient_1e13_1e12 fin_eval
    by (simp add: py_max_def fgt_def round_double_zero)
  then show ?thesis
    unfolding literal_1e13 literal_1e1 using normalized_ieee_overflow
    by (simp add: round_double_zero)
qed

text \<open>The float total of three non-negative weights is within three roundings of their
  sum, and so is the float sum of the quotients.\<close>

lemma total_error:
  fixes a b c s t :: real
  assumes "0 \<le> a" and "0 \<le> b" and "0 \<le> c"
    and s: "\<bar>s - (a + b)\<bar> \<le> \<bar>a + b\<bar> / 2 ^ 53 + 1 / 2 ^ 1075"
    and t: "\<bar>t - (s + c)\<bar> \<le> \<bar>s + c\<bar> / 2 ^ 53 + 1 / 2 ^ 1075"
  shows "\<bar>t - (a + b + c)\<bar> \<le> 3 * (a + b + c) / 2 ^ 53 + 3 / 2 ^ 1075"
proof -
  define h :: real where "h = 1 / 2 ^ 1075"
  define d :: real where "d = (a + b) / 2 ^ 53"
  define g :: real where "g = c / 2 ^ 53"
  have h0: "0 \<le> h" unfolding h_def by simp
  have d0: "0 \<le> d" unfolding d_def using assms(1,2) by simp
  have g0: "0 \<le> g" unfolding g_def using assms(3) by simp
  have ab: "\<bar>a + b\<bar> = a + b" using assms(1,2) by simp
  have s': "\<bar>s - (a + b)\<bar> \<le> d + h" using s unfolding ab d_def h_def .
  have sc: "\<bar>s + c\<bar> \<le> (a + b) + c + d + h" using s' assms(1-3) by linarith
  have "\<bar>s + c\<bar> / 2 ^ 53 \<le> ((a + b) + c + d + h) / 2 ^ 53"
    using sc by (rule divide_right_mono) simp
  also have "\<dots> = d + g + d / 2 ^ 53 + h / 2 ^ 53"
    unfolding d_def g_def by (simp add: add_divide_distrib)
  also have "\<dots> \<le> d + g + d + h"
    using d0 h0 by (intro add_mono order_refl) (simp_all add: field_simps)
  finally have "\<bar>s + c\<bar> / 2 ^ 53 \<le> d + g + d + h" .
  then have "\<bar>t - (s + c)\<bar> \<le> d + g + d + h + h" using t unfolding h_def by linarith
  then have "\<bar>t - (a + b + c)\<bar> \<le> 3 * d + 3 * g + 3 * h" using s' d0 g0 h0 by linarith
  also have "\<dots> = 3 * (a + b + c) / 2 ^ 53 + 3 / 2 ^ 1075"
    unfolding d_def g_def h_def by (simp add: add_divide_distrib)
  finally show ?thesis .
qed

lemma normalize_error:
  fixes a b c t x y z :: real
  assumes "0 \<le> a" and "0 \<le> b" and "0 \<le> c"
    and ts: "\<bar>t - (a + b + c)\<bar> \<le> 3 * (a + b + c) / 2 ^ 53 + 3 / 2 ^ 1075"
    and tl: "9 / 10 ^ 13 \<le> t"
    and x: "\<bar>x - a / t\<bar> \<le> \<bar>a / t\<bar> / 2 ^ 53 + 1 / 2 ^ 1075"
    and y: "\<bar>y - b / t\<bar> \<le> \<bar>b / t\<bar> / 2 ^ 53 + 1 / 2 ^ 1075"
    and z: "\<bar>z - c / t\<bar> \<le> \<bar>c / t\<bar> / 2 ^ 53 + 1 / 2 ^ 1075"
  shows "\<bar>x + y + z - 1\<bar> \<le> 1 / 10 ^ 15" and "a + b + c \<le> 2 * t"
proof -
  define S where "S = a + b + c"
  define r where "r = S / t"
  define h :: real where "h = 1 / 2 ^ 1075"
  define u :: real where "u = 1 / 2 ^ 53"
  have "(0::real) < 9 / 10 ^ 13" by simp
  then have t0: "0 < t" using tl by linarith
  have S0: "0 \<le> S" unfolding S_def using assms(1-3) by simp
  have h0: "0 \<le> h" unfolding h_def by simp
  have "(2::real) ^ 120 \<le> 2 ^ 1075" by (intro power_increasing) auto
  then have hs: "h \<le> 1 / 2 ^ 120" unfolding h_def by (intro divide_left_mono) auto
  have ts': "\<bar>t - S\<bar> \<le> 3 * (S / 2 ^ 53) + 3 * h" using ts unfolding S_def h_def by simp
  have "S / 2 ^ 53 \<le> S / 12" using S0 by (intro divide_left_mono) auto
  then have "S \<le> t + S / 4 + 3 * h" using ts' by linarith
  moreover have "3 * h \<le> t / 2" using hs tl by simp
  ultimately have S2: "S \<le> 2 * t" by linarith
  then show "a + b + c \<le> 2 * t" unfolding S_def .
  have r0: "0 \<le> r" unfolding r_def using S0 t0 by simp
  have r2: "r \<le> 2" unfolding r_def using S2 t0 by (simp add: pos_divide_le_eq)
  have q: "\<bar>a / t\<bar> = a / t" "\<bar>b / t\<bar> = b / t" "\<bar>c / t\<bar> = c / t"
    using assms(1-3) t0 by simp_all
  have rs: "r = a / t + b / t + c / t" unfolding r_def S_def by (simp add: add_divide_distrib)
  have "\<bar>x + y + z - r\<bar> \<le> a / t / 2 ^ 53 + b / t / 2 ^ 53 + c / t / 2 ^ 53 + 3 * h"
    using x y z unfolding q rs h_def by linarith
  also have "\<dots> = r * u + 3 * h" unfolding rs u_def by (simp add: add_divide_distrib)
  finally have e1: "\<bar>x + y + z - r\<bar> \<le> r * u + 3 * h" .
  have "\<bar>t - S\<bar> / t \<le> (3 * (S / 2 ^ 53) + 3 * h) / t"
    using ts' t0 by (intro divide_right_mono) auto
  moreover have "\<bar>t - S\<bar> / t = \<bar>r - 1\<bar>"
  proof -
    have "r - 1 = (S - t) / t" unfolding r_def using t0 by (simp add: field_simps)
    then have "\<bar>r - 1\<bar> = \<bar>S - t\<bar> / t" using t0 by (simp add: abs_divide)
    then show ?thesis by (simp add: abs_minus_commute)
  qed
  moreover have "(3 * (S / 2 ^ 53) + 3 * h) / t = 3 * (r * u) + 3 * (h / t)"
    unfolding r_def u_def by (simp add: add_divide_distrib)
  ultimately have e2: "\<bar>r - 1\<bar> \<le> 3 * (r * u) + 3 * (h / t)" by simp
  have "h / t \<le> h / (9 / 10 ^ 13)"
    using tl h0 by (intro divide_left_mono) (auto simp: t0)
  also have "\<dots> \<le> (1 / 2 ^ 120) / (9 / 10 ^ 13)"
    using hs by (intro divide_right_mono) auto
  also have "\<dots> \<le> 1 / 2 ^ 70" by simp
  finally have ht: "h / t \<le> 1 / 2 ^ 70" .
  have "r * u \<le> 2 * u" using r2 unfolding u_def by simp
  then have "\<bar>x + y + z - 1\<bar> \<le> 8 * u + 3 * h + 3 * (h / t)" using e1 e2 by linarith
  also have "\<dots> \<le> 8 * u + 3 * (1 / 2 ^ 120) + 3 * (1 / 2 ^ 70)"
    using hs ht by (intro add_mono mult_left_mono) auto
  also have "\<dots> \<le> 1 / 10 ^ 15" unfolding u_def by simp
  finally show "\<bar>x + y + z - 1\<bar> \<le> 1 / 10 ^ 15" .
qed

lemma fadd_ieee_Fin:
  assumes "fadd_ieee (fadd_ieee (Fin a) (Fin b)) (Fin c) = Fin t"
  shows "\<exists>s. round_double (a + b) = Fin s \<and> round_double (s + c) = Fin t"
  using assms by (cases "round_double (a + b)") auto

lemma float_sum_error:
  fixes x y z :: real
  assumes "0 \<le> x" and "0 \<le> y" and "0 \<le> z" and "x + y + z \<le> 2"
  shows "\<exists>s. fadd_ieee (fadd_ieee (Fin x) (Fin y)) (Fin z) = Fin s
           \<and> \<bar>s - (x + y + z)\<bar> \<le> 3 * (x + y + z) / 2 ^ 53 + 3 / 2 ^ 1075"
proof -
  define p where "p = round_unbounded (x + y)"
  have "\<bar>x + y\<bar> < 2 ^ 1023" using assms by simp
  then have p: "round_double (x + y) = Fin p" unfolding p_def by (rule round_double_finite)
  have p0: "0 \<le> p" using round_double_nonneg[OF _ p] assms(1,2) by simp
  have pe: "\<bar>p - (x + y)\<bar> \<le> \<bar>x + y\<bar> / 2 ^ 53 + 1 / 2 ^ 1075" using round_double_err[OF p] .
  have "\<bar>x + y\<bar> / 2 ^ 53 \<le> 2 / 1" using assms by (intro frac_le) auto
  moreover have "(1 / 2 ^ 1075 :: real) \<le> 1 / 1" by (intro frac_le) auto
  ultimately have "p \<le> 5" using pe assms by linarith
  define s where "s = round_unbounded (p + z)"
  have "\<bar>p + z\<bar> < 2 ^ 1023" using \<open>p \<le> 5\<close> p0 assms by simp
  then have s: "round_double (p + z) = Fin s" unfolding s_def by (rule round_double_finite)
  have "fadd_ieee (fadd_ieee (Fin x) (Fin y)) (Fin z) = Fin s" using p s by simp
  moreover have "\<bar>s - (x + y + z)\<bar> \<le> 3 * (x + y + z) / 2 ^ 53 + 3 / 2 ^ 1075"
    using total_error[OF assms(1-3) pe round_double_err[OF s]] .
  ultimately show ?thesis by blast
qed

text \<open>
  Claim C7, amended. For all finite weights \<open>a\<close>, \<open>b\<close>, \<open>c\<close>, each non-negative, whose
  float total \<^verbatim>\<open>a + b + c\<close> is finite and not below \<^verbatim>\<open>1e-12\<close>, \<open>normalized\<close> (in
  rounded arithmetic, \<open>normalized_ieee\<close>) raises nothing, its components are finite,
  their sum is within \<open>1e-15\<close> of 1, and their float sum \<^verbatim>\<open>psi + theta + cvar\<close> is
  finite and within \<open>2e-15\<close> of 1.
\<close>

theorem normalized_ieee_sums_to_one:
  assumes "0 \<le> a" and "0 \<le> b" and "0 \<le> c"
    and "fadd_ieee (fadd_ieee (Fin a) (Fin b)) (Fin c) = Fin t"
    and "fle (round_double (1 / 10 ^ 12)) (Fin t)"
  shows "\<exists>x y z s.
           normalized_ieee \<lparr>w_psi = Fin a, w_theta = Fin b, w_cvar = Fin c\<rparr>
             = Some \<lparr>w_psi = Fin x, w_theta = Fin y, w_cvar = Fin z\<rparr>
           \<and> \<bar>x + y + z - 1\<bar> \<le> 1 / 10 ^ 15
           \<and> fadd_ieee (fadd_ieee (Fin x) (Fin y)) (Fin z) = Fin s
           \<and> \<bar>s - 1\<bar> \<le> 2 / 10 ^ 15"
proof -
  obtain p where p: "round_double (a + b) = Fin p" and t: "round_double (p + c) = Fin t"
    using fadd_ieee_Fin[OF assms(4)] by blast
  have ts: "\<bar>t - (a + b + c)\<bar> \<le> 3 * (a + b + c) / 2 ^ 53 + 3 / 2 ^ 1075"
    using total_error[OF assms(1-3) round_double_err[OF p] round_double_err[OF t]] .
  have fl: "4951760157141521 / 2 ^ 92 \<le> t" using assms(5) unfolding literal_1e12 by simp
  then have tl: "9 / 10 ^ 13 \<le> t" by simp
  have "(0::real) < 9 / 10 ^ 13" by simp
  then have t0: "0 < t" using tl by linarith
  have total: "py_max (Fin t) (round_double (1 / 10 ^ 12)) = Fin t"
    unfolding literal_1e12 using fl by (simp add: py_max_def fgt_def)
  define x where "x = round_unbounded (a / t)"
  define y where "y = round_unbounded (b / t)"
  define z where "z = round_unbounded (c / t)"
  have xe: "\<bar>x - a / t\<bar> \<le> \<bar>a / t\<bar> / 2 ^ 53 + 1 / 2 ^ 1075"
    unfolding x_def by (rule round_unbounded_bound)
  have ye: "\<bar>y - b / t\<bar> \<le> \<bar>b / t\<bar> / 2 ^ 53 + 1 / 2 ^ 1075"
    unfolding y_def by (rule round_unbounded_bound)
  have ze: "\<bar>z - c / t\<bar> \<le> \<bar>c / t\<bar> / 2 ^ 53 + 1 / 2 ^ 1075"
    unfolding z_def by (rule round_unbounded_bound)
  note ne = normalize_error[OF assms(1-3) ts tl xe ye ze]
  have "a \<le> 2 * t" "b \<le> 2 * t" "c \<le> 2 * t" using ne(2) assms(1-3) by linarith+
  then have q: "a / t \<le> 2" "b / t \<le> 2" "c / t \<le> 2" using t0 by (simp_all add: pos_divide_le_eq)
  have q0: "0 \<le> a / t" "0 \<le> b / t" "0 \<le> c / t" using assms(1-3) t0 by simp_all
  have "\<bar>a / t\<bar> < 2 ^ 1023" using q(1) q0(1) by simp
  then have rx: "round_double (a / t) = Fin x" unfolding x_def by (rule round_double_finite)
  have "\<bar>b / t\<bar> < 2 ^ 1023" using q(2) q0(2) by simp
  then have ry: "round_double (b / t) = Fin y" unfolding y_def by (rule round_double_finite)
  have "\<bar>c / t\<bar> < 2 ^ 1023" using q(3) q0(3) by simp
  then have rz: "round_double (c / t) = Fin z" unfolding z_def by (rule round_double_finite)
  have n: "normalized_ieee \<lparr>w_psi = Fin a, w_theta = Fin b, w_cvar = Fin c\<rparr>
             = Some \<lparr>w_psi = Fin x, w_theta = Fin y, w_cvar = Fin z\<rparr>"
    unfolding normalized_ieee_def Let_def using t0 p t total rx ry rz by simp
  have x0: "0 \<le> x" unfolding x_def using q0(1) by (rule round_unbounded_nonneg)
  have y0: "0 \<le> y" unfolding y_def using q0(2) by (rule round_unbounded_nonneg)
  have z0: "0 \<le> z" unfolding z_def using q0(3) by (rule round_unbounded_nonneg)
  have "(1 / 10 ^ 15 :: real) \<le> 1" by simp
  then have le2: "x + y + z \<le> 2" using ne(1) by linarith
  obtain s where s: "fadd_ieee (fadd_ieee (Fin x) (Fin y)) (Fin z) = Fin s"
    and se: "\<bar>s - (x + y + z)\<bar> \<le> 3 * (x + y + z) / 2 ^ 53 + 3 / 2 ^ 1075"
    using float_sum_error[OF x0 y0 z0 le2] by blast
  have c1: "3 * (x + y + z) / 2 ^ 53 \<le> 6 / 2 ^ 53" using le2 by (intro divide_right_mono) auto
  have "(2::real) ^ 60 \<le> 2 ^ 1075" by (intro power_increasing) auto
  then have c2: "(3 / 2 ^ 1075 :: real) \<le> 3 / 2 ^ 60" by (intro divide_left_mono) auto
  have c3: "(1 / 10 ^ 15 + (6 / 2 ^ 53 + 3 / 2 ^ 60) :: real) \<le> 2 / 10 ^ 15" by simp
  have "\<bar>s - (x + y + z)\<bar> \<le> 6 / 2 ^ 53 + 3 / 2 ^ 60" using se c1 c2 by linarith
  then have "\<bar>s - 1\<bar> \<le> 1 / 10 ^ 15 + (6 / 2 ^ 53 + 3 / 2 ^ 60)" using ne(1) by linarith
  then have "\<bar>s - 1\<bar> \<le> 2 / 10 ^ 15" using c3 by (rule order_trans)
  then show ?thesis using n ne(1) s by blast
qed

theorem normalized_ieee_sums_to_one_witness:
  "(0::real) \<le> 2 \<and> (0::real) \<le> 1 \<and> (0::real) \<le> 1
   \<and> fadd_ieee (fadd_ieee (Fin 2) (Fin 1)) (Fin 1) = Fin 4
   \<and> fle (round_double (1 / 10 ^ 12)) (Fin 4)
   \<and> (\<exists>x y z s.
           normalized_ieee \<lparr>w_psi = Fin 2, w_theta = Fin 1, w_cvar = Fin 1\<rparr>
             = Some \<lparr>w_psi = Fin x, w_theta = Fin y, w_cvar = Fin z\<rparr>
           \<and> \<bar>x + y + z - 1\<bar> \<le> 1 / 10 ^ 15
           \<and> fadd_ieee (fadd_ieee (Fin x) (Fin y)) (Fin z) = Fin s
           \<and> \<bar>s - 1\<bar> \<le> 2 / 10 ^ 15)"
proof -
  have t: "fadd_ieee (fadd_ieee (Fin 2) (Fin 1)) (Fin 1) = Fin 4"
    using round_double_int[of 3] round_double_int[of 4] by simp
  have f: "fle (round_double (1 / 10 ^ 12)) (Fin 4)" unfolding literal_1e12 by simp
  from normalized_ieee_sums_to_one[OF _ _ _ t f] t f show ?thesis by simp
qed

section \<open>The Omega score\<close>

lemma compute_omega_bounded:
  "\<exists>v. compute_omega psi theta cvar weights = Some (Fin v) \<and> 0 \<le> v \<and> v \<le> 1"
proof -
  obtain n where
    n: "normalized (case weights of None \<Rightarrow> default_weights | Some given \<Rightarrow> given) = Some n"
    using normalized_total by blast
  show ?thesis
    using spec_clamp_bounds[of 0 1]
    by (simp add: compute_omega_def n Let_def clamp01_Fin)
qed

text \<open>
  Claim C4. For all inputs \<open>psi\<close>, \<open>theta\<close>, \<open>cvar\<close>, finite or not, and for any weights
  (given or defaulted), \<open>compute_omega\<close> raises nothing and returns a finite value in
  the closed interval from 0 to 1.
\<close>

theorem compute_omega_unit_interval:
  "\<exists>v. compute_omega psi theta cvar weights = Some (Fin v) \<and> 0 \<le> v \<and> v \<le> 1"
proof -
  obtain n where
    n: "normalized (case weights of None \<Rightarrow> default_weights | Some given \<Rightarrow> given) = Some n"
    using normalized_total by blast
  have "0 \<le> spec_clamp x 0 1 \<and> spec_clamp x 0 1 \<le> 1" for x
    by (rule spec_clamp_bounds) simp
  then show ?thesis
    by (simp add: compute_omega_def n Let_def clamp01_Fin)
qed

section \<open>The tail-mean estimator\<close>

text \<open>Negating a reversed ascending list gives an ascending list.\<close>

lemma sorted_uminus_rev:
  fixes ys :: "real list"
  shows "sorted ys \<Longrightarrow> sorted (map uminus (rev ys))"
proof (induction ys)
  case Nil
  then show ?case by simp
next
  case (Cons y ys)
  then show ?case by (auto simp: sorted_append)
qed

lemma sorted_desc_rev_sort: "sorted_desc xs = rev (sort xs)"
proof -
  have a: "sort (map uminus xs) = map uminus (sort_key uminus xs)"
    by (rule properties_for_sort) simp_all
  have "sorted (map uminus (rev (sort xs)))"
    by (rule sorted_uminus_rev) simp
  then have b: "sort (map uminus xs) = map uminus (rev (sort xs))"
    by (intro properties_for_sort) simp_all
  have "map uminus (sort_key uminus xs) = map uminus (rev (sort xs))"
    using a b by simp
  then show ?thesis
    unfolding sorted_desc_def by (simp add: inj_map_eq_map[OF inj_uminus])
qed

lemma spec_tail_size_bounds:
  assumes "0 < n"
  shows "1 \<le> spec_tail_size n alpha \<and> spec_tail_size n alpha \<le> n"
proof -
  define a where "a = spec_clamp alpha (1 / 10 ^ 6) (1 - 1 / 10 ^ 6)"
  have ab: "1 / 10 ^ 6 \<le> a \<and> a \<le> 1 - 1 / 10 ^ 6"
    unfolding a_def by (rule spec_clamp_bounds) simp
  have "0 < real n * a" using assms ab by simp
  then have "real n * (1 - a) < real n"
    by (simp add: algebra_simps)
  then have "\<lfloor>real n * (1 - a)\<rfloor> < int n"
    by (simp add: floor_less_iff)
  then show ?thesis
    using assms unfolding spec_tail_size_def a_def[symmetric] by linarith
qed

lemma clamped_alpha_Fin:
  "clamp alpha (Fin (1 / 10 ^ 6)) (fsub (Fin 1) (Fin (1 / 10 ^ 6)))
     = Fin (spec_clamp alpha (1 / 10 ^ 6) (1 - 1 / 10 ^ 6))"
proof -
  have "fsub (Fin 1) (Fin (1 / 10 ^ 6)) = Fin (1 - 1 / 10 ^ 6)"
    by (simp add: fsub_def)
  moreover have "(1 / 10 ^ 6 :: real) \<le> 1 - 1 / 10 ^ 6" by simp
  ultimately show ?thesis by (simp only: clamp_Fin)
qed

lemma scaled_eq:
  "py_int (fmul (Fin (real n))
        (fsub (Fin 1) (clamp alpha (Fin (1 / 10 ^ 6)) (fsub (Fin 1) (Fin (1 / 10 ^ 6))))))
   = Some \<lfloor>real n * (1 - spec_clamp alpha (1 / 10 ^ 6) (1 - 1 / 10 ^ 6))\<rfloor>"
proof -
  define a where "a = spec_clamp alpha (1 / 10 ^ 6) (1 - 1 / 10 ^ 6)"
  have ab: "1 / 10 ^ 6 \<le> a \<and> a \<le> 1 - 1 / 10 ^ 6"
    unfolding a_def by (rule spec_clamp_bounds) simp
  have nn: "0 \<le> real n * (1 - a)" using ab by simp
  have "fmul (Fin (real n)) (fsub (Fin 1) (Fin a)) = Fin (real n * (1 - a))"
    by (simp add: fsub_def)
  then show ?thesis
    unfolding clamped_alpha_Fin a_def[symmetric] using nn by simp
qed

lemma compute_qcvar_nonempty:
  assumes "finite_values samples \<noteq> []"
  shows "compute_qcvar samples alpha =
     Some (Fin (sum_list (take (spec_tail_size (length (finite_values samples)) alpha)
                            (sorted_desc (finite_values samples)))
               / real (spec_tail_size (length (finite_values samples)) alpha)))"
proof -
  define fs where "fs = finite_values samples"
  define k where "k = spec_tail_size (length fs) alpha"
  define sc where "sc = \<lfloor>real (length fs) * (1 - spec_clamp alpha (1 / 10 ^ 6) (1 - 1 / 10 ^ 6))\<rfloor>"
  have n: "0 < length fs" using assms fs_def by simp
  have kb: "1 \<le> k \<and> k \<le> length fs" unfolding k_def using spec_tail_size_bounds[OF n] .
  have ls: "length (sorted_desc fs) = length fs" by (simp add: sorted_desc_def)
  have s: "py_int (fmul (Fin (real (length (sorted_desc fs))))
        (fsub (Fin 1) (clamp alpha (Fin (1 / 10 ^ 6)) (fsub (Fin 1) (Fin (1 / 10 ^ 6)))))) = Some sc"
    unfolding ls sc_def by (rule scaled_eq)
  have sk: "nat (max 1 (sc + 1)) = k"
    unfolding k_def spec_tail_size_def sc_def by simp
  have len: "length (take k (sorted_desc fs)) = k"
    using kb ls by simp
  have k0: "real k \<noteq> 0" using kb by simp
  have "compute_qcvar samples alpha = Some (Fin (sum_list (take k (sorted_desc fs)) / real k))"
    unfolding compute_qcvar_def Let_def fs_def[symmetric] s
    using n k0 ls by (auto simp add: sk len simp del: length_take)
  then show ?thesis unfolding k_def fs_def .
qed

lemma compute_qcvar_empty:
  "finite_values samples = [] \<Longrightarrow> compute_qcvar samples alpha = Some (Fin 0)"
  by (simp add: compute_qcvar_def Let_def)

subsection \<open>The tail in rounded arithmetic\<close>

text \<open>The binary64 values of \<^verbatim>\<open>1e-6\<close>, of \<^verbatim>\<open>1 - 1e-6\<close>, of \<^verbatim>\<open>1 - 0.1\<close> and of
  \<^verbatim>\<open>10 * (1 - 0.1)\<close>: the last product rounds up to 9.\<close>

lemma literal_1e6: "round_double (1 / 10 ^ 6) = Fin (4722366482869645 / 2 ^ 72)"
  using round_double_down[of "1 / 10 ^ 6" 72 4722366482869645] by simp

lemma alpha_upper: "fsub_ieee (Fin 1) (Fin (4722366482869645 / 2 ^ 72)) = Fin (9007190247541737 / 2 ^ 53)"
  using round_double_down[of "1 - 4722366482869645 / 2 ^ 72" 53 9007190247541737]
  by (simp add: fsub_ieee_def)

lemma one_minus_tenth:
  "fsub_ieee (Fin 1) (Fin (7205759403792794 / 2 ^ 56)) = Fin (8106479329266893 / 2 ^ 53)"
  using round_double_down[of "1 - 7205759403792794 / 2 ^ 56" 53 8106479329266893]
  by (simp add: fsub_ieee_def)

lemma ten_times:
  "fmul_ieee (Fin 10) (Fin (8106479329266893 / 2 ^ 53)) = Fin 9"
  using round_double_down[of "10 * (8106479329266893 / 2 ^ 53)" 49 5066549580791808]
  by simp

lemma round_double_1: "round_double 1 = Fin 1"
  using round_double_int[of 1] by simp

lemma round_double_10: "round_double 10 = Fin 10"
  using round_double_int[of 10] by simp

lemma float_of_int_10: "float_of_int 10 = Some (Fin 10)"
  by (simp add: float_of_int_def round_double_10)

text \<open>Ten samples and \<^verbatim>\<open>alpha = 0.1\<close>: the source averages all ten, where the exact
  product \<open>10 * (1 - alpha)\<close> is below 9 and the stated tail size is 9.\<close>

lemma tail_example_code:
  "compute_qcvar_ieee left_sum
      [Fin 1, Fin 0, Fin 0, Fin 0, Fin 0, Fin 0, Fin 0, Fin 0, Fin 0, Fin 0]
      (Fin (7205759403792794 / 2 ^ 56)) = Some (round_double (1 / 10))"
proof -
  define xs :: "real list" where "xs = [1, 0, 0, 0, 0, 0, 0, 0, 0, 0]"
  have c: "clamp (Fin (7205759403792794 / 2 ^ 56)) (Fin (4722366482869645 / 2 ^ 72))
             (Fin (9007190247541737 / 2 ^ 53)) = Fin (7205759403792794 / 2 ^ 56)"
    by (simp add: clamp_def py_max_def py_min_def fgt_def)
  have clean: "finite_values [Fin 1, Fin 0, Fin 0, Fin 0, Fin 0, Fin 0, Fin 0, Fin 0, Fin 0, Fin 0] = xs"
    unfolding xs_def by simp
  have ne: "(xs = []) = False" unfolding xs_def by simp
  have sorted: "sorted_desc xs = xs" unfolding xs_def by (simp add: sorted_desc_def)
  have n: "float_of_int (int (length xs)) = Some (Fin 10)"
    unfolding xs_def by (simp add: float_of_int_10)
  have sc: "py_int (Fin 9) = Some 9" by simp
  have tk: "take (nat (max 1 (9 + 1))) xs = xs" unfolding xs_def by simp
  have s: "left_sum xs = Fin 1"
    unfolding xs_def by (simp add: left_sum_def round_double_1)
  have d: "fdiv_ieee (Fin 1) (Fin 10) = Some (round_double (1 / 10))" by simp
  show ?thesis
    unfolding compute_qcvar_ieee_def Let_def literal_1e6 alpha_upper c clean ne if_False
      sorted n Option.bind.simps one_minus_tenth ten_times sc tk s d ..
qed

lemma tail_example_exact:
  "spec_tail_size 10 (Fin (7205759403792794 / 2 ^ 56)) = 9"
  by (simp add: spec_tail_size_def spec_clamp_def)

lemma float_tail_size_tenth: "float_tail_size 10 (Fin (7205759403792794 / 2 ^ 56)) = 10"
proof -
  have a: "spec_clamp (Fin (7205759403792794 / 2 ^ 56)) (4722366482869645 / 2 ^ 72)
             (9007190247541737 / 2 ^ 53) = 7205759403792794 / 2 ^ 56"
    by (simp add: spec_clamp_def)
  have b: "round_double (1 - 7205759403792794 / 2 ^ 56) = Fin (8106479329266893 / 2 ^ 53)"
    using one_minus_tenth by (simp add: fsub_ieee_def)
  have n: "round_double (real 10) = Fin 10" using round_double_10 by simp
  show ?thesis unfolding float_tail_size_def Let_def a b n ten_times by simp
qed

text \<open>
  Claim C3 says that \<open>compute_qcvar\<close> returns the mean of the top \<open>k\<close> finite samples,
  \<open>k = max(1, floor(n (1 - alpha')) + 1)\<close>. The source takes \<^verbatim>\<open>int()\<close> of the float
  product \<^verbatim>\<open>len(sorted_values) * (1 - clamped_alpha)\<close>, which is rounded twice. For
  \<^verbatim>\<open>compute_qcvar([1.0, 0.0, 0.0, 0.0, 0.0, 0.0, 0.0, 0.0, 0.0, 0.0], alpha=0.1)\<close>
  the float product is 9.0 although \<open>10 * (1 - alpha)\<close> is below 9 (the float \<open>0.1\<close> is
  above one tenth): the source averages ten values and returns 0.1, where the claim's
  \<open>k\<close> is 9 and its mean is \<open>1 / 9\<close>.
\<close>

theorem compute_qcvar_ieee_tail_counterexample:
  "compute_qcvar_ieee left_sum
      [Fin 1, Fin 0, Fin 0, Fin 0, Fin 0, Fin 0, Fin 0, Fin 0, Fin 0, Fin 0]
      (Fin (7205759403792794 / 2 ^ 56)) = Some (Fin (7205759403792794 / 2 ^ 56))
   \<and> round_double (1 / 10) = Fin (7205759403792794 / 2 ^ 56)
   \<and> float_tail_size 10 (Fin (7205759403792794 / 2 ^ 56)) = 10
   \<and> spec_tail_size 10 (Fin (7205759403792794 / 2 ^ 56)) = 9
   \<and> spec_qcvar [Fin 1, Fin 0, Fin 0, Fin 0, Fin 0, Fin 0, Fin 0, Fin 0, Fin 0, Fin 0]
         (Fin (7205759403792794 / 2 ^ 56)) = 1 / 9"
proof -
  have fv: "spec_finite [Fin 1, Fin 0, Fin 0, Fin 0, Fin 0, Fin 0, Fin 0, Fin 0, Fin 0, Fin 0]
              = [1, 0, 0, 0, 0, 0, 0, 0, 0, 0]"
    by (simp add: spec_finite_def)
  have len: "length [1, 0, 0, 0, 0, 0, 0, 0, 0, 0 :: real] = 10" by simp
  have "sum_list (take 9 (rev (sort [1, 0, 0, 0, 0, 0, 0, 0, 0, 0 :: real]))) / real 9 = 1 / 9"
    by simp
  then have "spec_qcvar [Fin 1, Fin 0, Fin 0, Fin 0, Fin 0, Fin 0, Fin 0, Fin 0, Fin 0, Fin 0]
         (Fin (7205759403792794 / 2 ^ 56)) = 1 / 9"
    unfolding spec_qcvar_def Let_def fv len tail_example_exact by simp
  then show ?thesis
    using tail_example_code tail_example_exact float_tail_size_tenth literal_1e1 by simp
qed

text \<open>Two more evaluations: with ten samples and \<^verbatim>\<open>alpha = 0.9\<close> the float product is
  below 1 and the tail has one element; and the left-to-right sum of two floats
  \<open>2 ^ 1023\<close> is infinite.\<close>

lemma literal_9e1: "round_double (9 / 10) = Fin (8106479329266893 / 2 ^ 53)"
  using round_double_down[of "9 / 10" 53 8106479329266893] by simp

lemma float_tail_size_nine_tenths: "float_tail_size 10 (round_double (9 / 10)) = 1"
proof -
  have a: "spec_clamp (Fin (8106479329266893 / 2 ^ 53)) (4722366482869645 / 2 ^ 72)
             (9007190247541737 / 2 ^ 53) = 8106479329266893 / 2 ^ 53"
    by (simp add: spec_clamp_def)
  have b: "round_double (1 - 8106479329266893 / 2 ^ 53) = Fin (900719925474099 / 2 ^ 53)"
    using round_double_dyadic[of 900719925474099 53] by simp
  have n: "round_double (real 10) = Fin 10" using round_double_10 by simp
  have m: "fmul_ieee (Fin 10) (Fin (900719925474099 / 2 ^ 53)) = Fin (9007199254740990 / 2 ^ 53)"
    using round_double_dyadic[of 9007199254740990 53] by simp
  show ?thesis unfolding literal_9e1 float_tail_size_def Let_def a b n m by simp
qed

lemma round_double_big: "round_double (2 ^ 1023) = Fin (2 ^ 1023)"
proof -
  have "round_unbounded (2 ^ 1023) = 2 ^ 1023"
    by (rule round_unbounded_exact[of _ 1 1023]) simp_all
  then show ?thesis by (simp add: round_double_def)
qed

lemma left_sum_overflow: "left_sum [2 ^ 1023, 2 ^ 1023] = PInf"
proof -
  have "(2::real) ^ 1023 + 2 ^ 1023 = 2 ^ 1024" by simp
  then show ?thesis
    unfolding left_sum_def list.map foldl.simps fadd_ieee.simps add_0 round_double_big
    by (simp only: round_double_overflow)
qed

text \<open>The finite samples, as the source filters them and as the statement reads them;
  the float of a list length; and the float product \<^verbatim>\<open>n * (1 - alpha')\<close>, which is
  non-negative and below \<open>n\<close>, so that the tail never exceeds the finite samples.\<close>

lemma finite_values_spec: "finite_values samples = spec_finite samples"
  unfolding spec_finite_def
  by (induction samples rule: finite_values.induct) simp_all

lemma length_finite_values: "length (finite_values samples) \<le> length samples"
  by (induction samples rule: finite_values.induct) simp_all

lemma round_count:
  assumes "n < 2 ^ 63"
  shows "\<exists>r. round_double (real n) = Fin r \<and> 0 \<le> r
           \<and> \<bar>r - real n\<bar> \<le> real n / 2 ^ 53 + 1 / 2 ^ 1075"
proof -
  have "real n < 2 ^ 63" using assms by (metis of_nat_less_iff of_nat_numeral of_nat_power)
  also have "\<dots> < (2 ^ 1023 :: real)" by simp
  finally have "\<bar>real n\<bar> < 2 ^ 1023" by simp
  then have r: "round_double (real n) = Fin (round_unbounded (real n))"
    by (rule round_double_finite)
  show ?thesis
    using r round_double_err[OF r] round_unbounded_nonneg[of "real n"] by simp
qed

lemma scaled_below_count:
  assumes n1: "1 \<le> n" and n63: "n < 2 ^ 63"
    and lo: "4722366482869645 / 2 ^ 72 \<le> a" and hi: "a \<le> 9007190247541737 / 2 ^ 53"
  shows "\<exists>p. fmul_ieee (round_double (real n)) (round_double (1 - a)) = Fin p
           \<and> 0 \<le> p \<and> p < real n"
proof -
  define N where "N = real n"
  have N1: "1 \<le> N" unfolding N_def using n1 by simp
  have N63: "N < 2 ^ 63"
    unfolding N_def using n63 by (metis of_nat_less_iff of_nat_numeral of_nat_power)
  obtain m where m: "round_double N = Fin m" and m0: "0 \<le> m"
    and me: "\<bar>m - N\<bar> \<le> N / 2 ^ 53 + 1 / 2 ^ 1075"
    unfolding N_def using round_count[OF n63] by blast
  define b where "b = round_unbounded (1 - a)"
  have a01: "0 \<le> 1 - a" "1 - a \<le> 1" using lo[simplified] hi[simplified] by linarith+
  then have "\<bar>1 - a\<bar> < 2 ^ 1023" by simp
  then have b: "round_double (1 - a) = Fin b" unfolding b_def by (rule round_double_finite)
  have b0: "0 \<le> b" unfolding b_def using a01(1) by (rule round_unbounded_nonneg)
  have "\<bar>1 - a\<bar> / 2 ^ 53 \<le> 1 / 2 ^ 53" using a01 by (intro divide_right_mono) auto
  then have be: "\<bar>b - (1 - a)\<bar> \<le> 1 / 2 ^ 53 + 1 / 2 ^ 1075"
    using round_double_err[OF b] by linarith
  have "(2::real) ^ 53 \<le> 2 ^ 1075" by (intro power_increasing) auto
  then have "(1 / 2 ^ 1075 :: real) \<le> 1 / 2 ^ 53" by (intro divide_left_mono) auto
  then have be': "\<bar>b - (1 - a)\<bar> \<le> 2 / 2 ^ 53" using be by linarith
  then have "b - (1 - a) \<le> 2 / 2 ^ 53" by linarith
  then have bc: "b \<le> 1 - 1 / 2 ^ 21" using lo by simp
  have mN: "m \<le> N + N / 2 ^ 53 + 1 / 2 ^ 1075" using me by linarith
  have mb: "m * b \<le> m * (1 - 1 / 2 ^ 21)" using bc m0 by (rule mult_left_mono)
  have mb0: "0 \<le> m * b" using m0 b0 by simp
  have "m * b \<le> m" using mb m0 by simp
  have "m < 2 ^ 64" using mN[simplified] N63[simplified] N1 by simp
  then have "\<bar>m * b\<bar> < 2 ^ 1023" using \<open>m * b \<le> m\<close> mb0 by simp
  define p where "p = round_unbounded (m * b)"
  have p: "round_double (m * b) = Fin p"
    unfolding p_def using \<open>\<bar>m * b\<bar> < 2 ^ 1023\<close> by (rule round_double_finite)
  have p0: "0 \<le> p" unfolding p_def using mb0 by (rule round_unbounded_nonneg)
  have "\<bar>m * b\<bar> / 2 ^ 53 \<le> m / 2 ^ 53"
    using \<open>m * b \<le> m\<close> mb0 by (intro divide_right_mono) auto
  then have pe: "p \<le> m * (1 - 1 / 2 ^ 21) + m / 2 ^ 53 + 1 / 2 ^ 1075"
    using round_double_err[OF p] mb by linarith
  have "p < N" using pe[simplified] mN[simplified] N1 m0 by linarith
  then show ?thesis using m b p p0 unfolding N_def by simp
qed

lemma clamped_alpha_ieee:
  "clamp alpha (round_double (1 / 10 ^ 6)) (fsub_ieee (Fin 1) (round_double (1 / 10 ^ 6)))
     = Fin (spec_clamp alpha (4722366482869645 / 2 ^ 72) (9007190247541737 / 2 ^ 53))"
proof -
  have "(4722366482869645 / 2 ^ 72 :: real) \<le> 9007190247541737 / 2 ^ 53" by simp
  then show ?thesis unfolding literal_1e6 alpha_upper by (rule clamp_Fin)
qed

lemma float_of_int_count:
  assumes "1 \<le> k" and "k < 2 ^ 63"
  shows "\<exists>r. round_double (real k) = Fin r \<and> float_of_int (int k) = Some (Fin r) \<and> r \<noteq> 0"
proof -
  obtain r where r: "round_double (real k) = Fin r"
    and re: "\<bar>r - real k\<bar> \<le> real k / 2 ^ 53 + 1 / 2 ^ 1075"
    using round_count[OF assms(2)] by blast
  have "(2::real) ^ 2 \<le> 2 ^ 1075" by (intro power_increasing) auto
  then have "(1 / 2 ^ 1075 :: real) \<le> 1 / 2 ^ 2" by (intro divide_left_mono) auto
  moreover have "real k / 2 ^ 53 \<le> real k / 2 ^ 2" by (intro divide_left_mono power_increasing) auto
  moreover have "1 \<le> real k" using assms(1) by simp
  ultimately have "real k - real k / 2 ^ 2 - 1 / 2 ^ 2 \<le> r" using re by linarith
  then have "0 < r" using \<open>1 \<le> real k\<close> by simp
  then show ?thesis using r by (simp add: float_of_int_def)
qed

lemma fdiv_ieee_total: "r \<noteq> 0 \<Longrightarrow> \<exists>v. fdiv_ieee x (Fin r) = Some v"
  by (cases x) auto

lemma compute_qcvar_ieee_empty:
  "finite_values samples = [] \<Longrightarrow> compute_qcvar_ieee sum_builtin samples alpha = Some (Fin 0)"
  by (simp add: compute_qcvar_ieee_def Let_def)

lemma compute_qcvar_ieee_nonempty:
  assumes "length samples < 2 ^ 63" and "finite_values samples \<noteq> []"
  shows "1 \<le> float_tail_size (length (finite_values samples)) alpha
       \<and> float_tail_size (length (finite_values samples)) alpha \<le> length (finite_values samples)
       \<and> compute_qcvar_ieee sum_builtin samples alpha
           = fdiv_ieee (sum_builtin (take (float_tail_size (length (finite_values samples)) alpha)
                                         (rev (sort (finite_values samples)))))
                       (round_double (real (float_tail_size (length (finite_values samples)) alpha)))
       \<and> (\<exists>v. compute_qcvar_ieee sum_builtin samples alpha = Some v)"
proof -
  define fs where "fs = finite_values samples"
  define n where "n = length fs"
  define a where "a = spec_clamp alpha (4722366482869645 / 2 ^ 72) (9007190247541737 / 2 ^ 53)"
  have n1: "1 \<le> n" using assms(2) unfolding n_def fs_def by (simp add: Suc_le_eq)
  have n63: "n < 2 ^ 63"
    using length_finite_values[of samples] assms(1) unfolding n_def fs_def by linarith
  have ab: "4722366482869645 / 2 ^ 72 \<le> a \<and> a \<le> 9007190247541737 / 2 ^ 53"
    unfolding a_def by (rule spec_clamp_bounds) simp
  obtain p where p: "fmul_ieee (round_double (real n)) (round_double (1 - a)) = Fin p"
    and p0: "0 \<le> p" and pn: "p < real n"
    using scaled_below_count[OF n1 n63] ab by blast
  define k where "k = nat (max 1 (\<lfloor>p\<rfloor> + 1))"
  have fk: "float_tail_size n alpha = k"
    unfolding float_tail_size_def Let_def a_def[symmetric] p k_def by simp
  have "\<lfloor>p\<rfloor> < int n" using pn by (simp add: floor_less_iff)
  then have kb: "1 \<le> k \<and> k \<le> n" unfolding k_def using n1 by linarith
  then have k63: "k < 2 ^ 63" using n63 by linarith
  obtain m where m: "float_of_int (int n) = Some (Fin m)" and rm: "round_double (real n) = Fin m"
    using float_of_int_count[OF n1 n63] by blast
  obtain r where rk: "round_double (real k) = Fin r" and fr: "float_of_int (int k) = Some (Fin r)"
    and r0: "r \<noteq> 0"
    using float_of_int_count[OF _ k63] kb by blast
  have ls: "length (rev (sort fs)) = n" unfolding n_def by simp
  have sub: "fsub_ieee (Fin 1) (Fin a) = round_double (1 - a)" by (simp add: fsub_ieee_def)
  have sc: "py_int (fmul_ieee (Fin m) (fsub_ieee (Fin 1) (Fin a))) = Some \<lfloor>p\<rfloor>"
    unfolding sub rm[symmetric] p using p0 by simp
  have len: "length (take k (rev (sort fs))) = k" using kb ls by simp
  have ne: "(fs = []) = False" using assms(2) unfolding fs_def by simp
  have c: "compute_qcvar_ieee sum_builtin samples alpha
             = fdiv_ieee (sum_builtin (take k (rev (sort fs)))) (Fin r)"
    unfolding compute_qcvar_ieee_def Let_def clamped_alpha_ieee a_def[symmetric] fs_def[symmetric]
      ne if_False sorted_desc_rev_sort ls m Option.bind.simps sc k_def[symmetric] len fr ..
  obtain v where v: "fdiv_ieee (sum_builtin (take k (rev (sort fs)))) (Fin r) = Some v"
    using fdiv_ieee_total[OF r0] by blast
  have "compute_qcvar_ieee sum_builtin samples alpha
          = fdiv_ieee (sum_builtin (take k (rev (sort fs)))) (round_double (real k))"
    unfolding rk by (rule c)
  moreover have "\<exists>v. compute_qcvar_ieee sum_builtin samples alpha = Some v"
    unfolding c using v by blast
  ultimately show ?thesis
    using kb unfolding fk[symmetric] n_def fs_def by blast
qed

text \<open>
  Claim C3, amended. For every sample list of fewer than \<open>2 ^ 63\<close> elements (no Python
  list is longer), every \<open>alpha\<close> and every way \<^verbatim>\<open>sum\<close> adds floats, \<open>compute_qcvar\<close>
  (in rounded arithmetic, \<open>compute_qcvar_ieee\<close>) raises nothing. With at least one finite sample it returns the float
  quotient \<^verbatim>\<open>sum(top) / k\<close>, where \<open>top\<close> are the top \<open>k\<close> values of the finite samples
  sorted descending, \<open>k = max(1, floor(n * (1 - alpha')) + 1)\<close> with the difference and
  the product each rounded to binary64, \<open>n\<close> the number of finite samples, \<open>alpha'\<close> the
  \<open>alpha\<close> clamped between the floats \<^verbatim>\<open>1e-6\<close> and \<^verbatim>\<open>1 - 1e-6\<close>, and
  \<open>1 \<le> k \<le> n\<close>. With no finite sample, as for the empty list and for \<open>[nan, inf]\<close>, it
  returns 0.0.
\<close>

theorem compute_qcvar_ieee_tail_mean:
  assumes "length samples < 2 ^ 63"
  shows "compute_qcvar_ieee sum_builtin samples alpha = spec_qcvar_ieee sum_builtin samples alpha
       \<and> (\<exists>v. compute_qcvar_ieee sum_builtin samples alpha = Some v)
       \<and> (spec_finite samples \<noteq> [] \<longrightarrow>
            1 \<le> float_tail_size (length (spec_finite samples)) alpha
            \<and> float_tail_size (length (spec_finite samples)) alpha \<le> length (spec_finite samples))
       \<and> compute_qcvar_ieee sum_builtin [] alpha = Some (Fin 0)
       \<and> compute_qcvar_ieee sum_builtin [NaN, PInf] alpha = Some (Fin 0)"
proof -
  have e1: "compute_qcvar_ieee sum_builtin [] alpha = Some (Fin 0)"
    by (rule compute_qcvar_ieee_empty) simp
  have e2: "compute_qcvar_ieee sum_builtin [NaN, PInf] alpha = Some (Fin 0)"
    by (rule compute_qcvar_ieee_empty) simp
  show ?thesis
  proof (cases "finite_values samples = []")
    case True
    then show ?thesis
      using e1 e2 compute_qcvar_ieee_empty[OF True]
      by (simp add: spec_qcvar_ieee_def finite_values_spec)
  next
    case False
    note ne = compute_qcvar_ieee_nonempty[OF assms False, of alpha sum_builtin]
    have "spec_qcvar_ieee sum_builtin samples alpha
            = fdiv_ieee (sum_builtin (take (float_tail_size (length (finite_values samples)) alpha)
                                         (rev (sort (finite_values samples)))))
                (round_double (real (float_tail_size (length (finite_values samples)) alpha)))"
      using False by (simp add: spec_qcvar_ieee_def Let_def finite_values_spec)
    then have "compute_qcvar_ieee sum_builtin samples alpha = spec_qcvar_ieee sum_builtin samples alpha"
      using ne by simp
    then show ?thesis
      using ne e1 e2 unfolding finite_values_spec by blast
  qed
qed

theorem compute_qcvar_ieee_tail_mean_witness:
  "length [Fin (1 / 2), NaN, Fin (1 / 4), PInf] < (2 :: nat) ^ 63
   \<and> spec_finite [Fin (1 / 2), NaN, Fin (1 / 4), PInf] = [1 / 2, 1 / 4]
   \<and> compute_qcvar_ieee left_sum [Fin (1 / 2), NaN, Fin (1 / 4), PInf] (Fin (1 / 2))
       = spec_qcvar_ieee left_sum [Fin (1 / 2), NaN, Fin (1 / 4), PInf] (Fin (1 / 2))
   \<and> (\<exists>v. compute_qcvar_ieee left_sum [Fin (1 / 2), NaN, Fin (1 / 4), PInf] (Fin (1 / 2)) = Some v)
   \<and> 1 \<le> float_tail_size (length [1 / 2, 1 / 4 :: real]) (Fin (1 / 2))
   \<and> float_tail_size (length [1 / 2, 1 / 4 :: real]) (Fin (1 / 2)) \<le> length [1 / 2, 1 / 4 :: real]"
proof -
  have l: "length [Fin (1 / 2), NaN, Fin (1 / 4), PInf] < (2 :: nat) ^ 63" by simp
  have f: "spec_finite [Fin (1 / 2), NaN, Fin (1 / 4), PInf] = [1 / 2, 1 / 4]"
    by (simp add: spec_finite_def)
  have ne: "[1 / 2, 1 / 4] \<noteq> ([] :: real list)" by simp
  from compute_qcvar_ieee_tail_mean[OF l, of left_sum "Fin (1 / 2)", unfolded f] l f ne
  show ?thesis by blast
qed

text \<open>
  How far the rounded tail size is from the stated one: the two clamped values of
  \<open>alpha\<close> differ by at most \<open>2 powr (- 53)\<close>, and for fewer than \<open>2 ^ 49\<close> finite samples
  the float product is within one half of \<open>n * (1 - alpha')\<close>, so the two tail sizes
  differ by at most one.
\<close>

lemma spec_clamp_near:
  fixes l h l' h' d :: real
  assumes "\<bar>l - l'\<bar> \<le> d" and "\<bar>h - h'\<bar> \<le> d"
  shows "\<bar>spec_clamp v l h - spec_clamp v l' h'\<bar> \<le> d"
  using assms by (cases v) (auto simp: spec_clamp_def)

lemma clamped_alpha_near:
  "\<bar>spec_clamp alpha (4722366482869645 / 2 ^ 72) (9007190247541737 / 2 ^ 53)
     - spec_clamp alpha (1 / 10 ^ 6) (1 - 1 / 10 ^ 6)\<bar> \<le> 1 / 2 ^ 53"
  by (rule spec_clamp_near) simp_all

lemma scaled_near:
  assumes n49: "n < 2 ^ 49"
    and lo: "4722366482869645 / 2 ^ 72 \<le> a" and hi: "a \<le> 9007190247541737 / 2 ^ 53"
  shows "\<exists>p. fmul_ieee (round_double (real n)) (round_double (1 - a)) = Fin p
           \<and> \<bar>p - real n * (1 - a)\<bar> \<le> 1 / 2"
proof -
  define N where "N = real n"
  have N0: "0 \<le> N" unfolding N_def by simp
  have N49: "N \<le> 2 ^ 49"
    unfolding N_def using n49 by (metis less_imp_le of_nat_le_iff of_nat_numeral of_nat_power)
  have "\<bar>int n\<bar> < 2 ^ 53" using n49 by (simp add: order_less_trans[of _ "2 ^ 49"])
  then have m: "round_double N = Fin N"
    unfolding N_def using round_double_int[of "int n"] by simp
  define x where "x = 1 - a"
  define b where "b = round_unbounded x"
  have x01: "0 \<le> x" "x \<le> 1" unfolding x_def using lo[simplified] hi[simplified] by linarith+
  then have "\<bar>x\<bar> < 2 ^ 1023" by simp
  then have b: "round_double x = Fin b" unfolding b_def by (rule round_double_finite)
  have b0: "0 \<le> b" unfolding b_def using x01(1) by (rule round_unbounded_nonneg)
  have h: "(1 / 2 ^ 1075 :: real) \<le> 1 / 2 ^ 60"
  proof -
    have "(2::real) ^ 60 \<le> 2 ^ 1075" by (intro power_increasing) auto
    then show ?thesis by (intro divide_left_mono) auto
  qed
  have "\<bar>x\<bar> / 2 ^ 53 \<le> 1 / 2 ^ 53" using x01 by (intro divide_right_mono) auto
  then have be: "\<bar>b - x\<bar> \<le> 1 / 2 ^ 53 + 1 / 2 ^ 60"
    using round_double_err[OF b] h by linarith
  have "(1 / 2 ^ 53 + 1 / 2 ^ 60 :: real) \<le> 1 / 2 ^ 52" by simp
  then have be': "\<bar>b - x\<bar> \<le> 1 / 2 ^ 52" using be by linarith
  have "b \<le> x + 1 / 2 ^ 52" using be' by linarith
  moreover have "(1 / 2 ^ 52 :: real) \<le> 1" by simp
  ultimately have b2: "b \<le> 2" using x01 by linarith
  have "\<bar>N * b - N * x\<bar> = N * \<bar>b - x\<bar>"
    using N0 by (simp add: abs_mult flip: right_diff_distrib)
  also have "\<dots> \<le> 2 ^ 49 * (1 / 2 ^ 52)"
    using N49 be' N0 by (intro mult_mono) auto
  finally have e1: "\<bar>N * b - N * x\<bar> \<le> 1 / 8" by simp
  have nb0: "0 \<le> N * b" using N0 b0 by simp
  have "N * b \<le> 2 ^ 49 * 2" using N49 b2 N0 b0 by (intro mult_mono) auto
  then have nb: "N * b \<le> 2 ^ 50" by simp
  then have "\<bar>N * b\<bar> < 2 ^ 1023" using nb0 by simp
  define p where "p = round_unbounded (N * b)"
  have p: "round_double (N * b) = Fin p"
    unfolding p_def using \<open>\<bar>N * b\<bar> < 2 ^ 1023\<close> by (rule round_double_finite)
  have "\<bar>N * b\<bar> / 2 ^ 53 \<le> 2 ^ 50 / 2 ^ 53" using nb nb0 by (intro divide_right_mono) auto
  then have "\<bar>p - N * b\<bar> \<le> 2 ^ 50 / 2 ^ 53 + 1 / 2 ^ 60"
    using round_double_err[OF p] h by linarith
  moreover have "(2 ^ 50 / 2 ^ 53 + 1 / 2 ^ 60 :: real) \<le> 1 / 8 + 1 / 2 ^ 60" by simp
  ultimately have e2: "\<bar>p - N * b\<bar> \<le> 1 / 8 + 1 / 2 ^ 60" by linarith
  have "(1 / 8 + 1 / 2 ^ 60 + 1 / 8 :: real) \<le> 1 / 2" by simp
  moreover have "\<bar>p - N * x\<bar> \<le> 1 / 8 + 1 / 2 ^ 60 + 1 / 8" using e1 e2 by linarith
  ultimately have "\<bar>p - N * x\<bar> \<le> 1 / 2" by (rule order_trans[rotated])
  then show ?thesis using m b p unfolding N_def x_def by auto
qed

lemma float_tail_size_near:
  assumes "n < 2 ^ 49"
  shows "float_tail_size n alpha \<le> spec_tail_size n alpha + 1
       \<and> spec_tail_size n alpha \<le> float_tail_size n alpha + 1"
proof -
  define a where "a = spec_clamp alpha (4722366482869645 / 2 ^ 72) (9007190247541737 / 2 ^ 53)"
  define a' where "a' = spec_clamp alpha (1 / 10 ^ 6) (1 - 1 / 10 ^ 6)"
  define N where "N = real n"
  have N0: "0 \<le> N" unfolding N_def by simp
  have N49: "N \<le> 2 ^ 49"
    unfolding N_def using assms by (metis less_imp_le of_nat_le_iff of_nat_numeral of_nat_power)
  have ab: "4722366482869645 / 2 ^ 72 \<le> a \<and> a \<le> 9007190247541737 / 2 ^ 53"
    unfolding a_def by (rule spec_clamp_bounds) simp
  obtain p where p: "fmul_ieee (round_double N) (round_double (1 - a)) = Fin p"
    and pe: "\<bar>p - N * (1 - a)\<bar> \<le> 1 / 2"
    unfolding N_def using scaled_near[OF assms] ab by blast
  have d: "\<bar>a - a'\<bar> \<le> 1 / 2 ^ 53" unfolding a_def a'_def by (rule clamped_alpha_near)
  have "\<bar>N * (1 - a) - N * (1 - a')\<bar> = N * \<bar>a - a'\<bar>"
    using N0 by (simp add: abs_mult abs_minus_commute flip: right_diff_distrib)
  also have "\<dots> \<le> 2 ^ 49 * (1 / 2 ^ 53)" using N49 d N0 by (intro mult_mono) auto
  finally have "\<bar>N * (1 - a) - N * (1 - a')\<bar> \<le> 1 / 16" by simp
  then have "\<bar>p - N * (1 - a')\<bar> < 1" using pe by linarith
  then have "\<lfloor>p\<rfloor> \<le> \<lfloor>N * (1 - a')\<rfloor> + 1 \<and> \<lfloor>N * (1 - a')\<rfloor> \<le> \<lfloor>p\<rfloor> + 1"
    by linarith
  then show ?thesis
    unfolding float_tail_size_def spec_tail_size_def Let_def a_def[symmetric] a'_def[symmetric]
      N_def[symmetric] p
    by simp linarith
qed

subsection \<open>Bounds on the tail mean\<close>

lemma sum_list_lower:
  fixes xs :: "real list"
  shows "\<forall>x\<in>set xs. lo \<le> x \<Longrightarrow> lo * real (length xs) \<le> sum_list xs"
  by (induction xs) (auto simp: algebra_simps)

lemma sum_list_upper:
  fixes xs :: "real list"
  shows "\<forall>x\<in>set xs. x \<le> hi \<Longrightarrow> sum_list xs \<le> hi * real (length xs)"
  by (induction xs) (auto simp: algebra_simps)

lemma tail_mean_lower:
  assumes "\<forall>x\<in>set fs. lo \<le> x" and "1 \<le> k" and "k \<le> length fs"
  shows "lo \<le> sum_list (take k (sorted_desc fs)) / real k"
proof -
  have len: "length (take k (sorted_desc fs)) = k"
    using assms(3) by (simp add: sorted_desc_def)
  have "\<forall>x\<in>set (take k (sorted_desc fs)). lo \<le> x"
    using assms(1) by (auto simp: sorted_desc_def dest: in_set_takeD)
  from sum_list_lower[OF this] have "lo * real k \<le> sum_list (take k (sorted_desc fs))"
    unfolding len .
  then show ?thesis using assms(2) by (simp add: pos_le_divide_eq)
qed

lemma tail_mean_upper:
  assumes "\<forall>x\<in>set fs. x \<le> hi" and "1 \<le> k" and "k \<le> length fs"
  shows "sum_list (take k (sorted_desc fs)) / real k \<le> hi"
proof -
  have len: "length (take k (sorted_desc fs)) = k"
    using assms(3) by (simp add: sorted_desc_def)
  have "\<forall>x\<in>set (take k (sorted_desc fs)). x \<le> hi"
    using assms(1) by (auto simp: sorted_desc_def dest: in_set_takeD)
  from sum_list_upper[OF this] have "sum_list (take k (sorted_desc fs)) \<le> hi * real k"
    unfolding len .
  then show ?thesis using assms(2) by (simp add: pos_divide_le_eq)
qed

lemma compute_qcvar_unit:
  assumes "\<forall>x\<in>set (finite_values samples). 0 \<le> x \<and> x \<le> 1"
  shows "\<exists>v. compute_qcvar samples alpha = Some (Fin v) \<and> 0 \<le> v \<and> v \<le> 1"
proof (cases "finite_values samples = []")
  case True
  then show ?thesis by (simp add: compute_qcvar_empty)
next
  case False
  then have "0 < length (finite_values samples)" by simp
  from spec_tail_size_bounds[OF this, of alpha]
    tail_mean_lower[of "finite_values samples" 0] tail_mean_upper[of "finite_values samples" 1] assms
  show ?thesis
    unfolding compute_qcvar_nonempty[OF False] by simp
qed

text \<open>
  Claim C8 says that \<open>compute_qcvar\<close> never returns a negative value. The source has
  no clamp on the samples or on the mean: one negative sample gives a negative result.
\<close>

theorem compute_qcvar_negative_counterexample:
  "compute_qcvar [Fin (- 1)] (Fin (95 / 100)) = Some (Fin (- 1)) \<and> \<not> fge (Fin (- 1)) (Fin 0)"
  by (simp add: compute_qcvar_def clamp_def py_max_def py_min_def fgt_def fge_def fsub_def sorted_desc_def)

text \<open>
  Claim C8, amended. For every sample list whose finite values are all non-negative and
  for every \<open>alpha\<close>, \<open>compute_qcvar\<close> returns a value greater than or equal to 0.
\<close>

theorem compute_qcvar_nonneg:
  assumes "\<forall>x\<in>set (finite_values samples). 0 \<le> x"
  shows "\<exists>v. compute_qcvar samples alpha = Some (Fin v) \<and> 0 \<le> v"
proof (cases "finite_values samples = []")
  case True
  then show ?thesis by (simp add: compute_qcvar_empty)
next
  case False
  then have "0 < length (finite_values samples)" by simp
  from spec_tail_size_bounds[OF this, of alpha] tail_mean_lower[OF assms]
  show ?thesis
    unfolding compute_qcvar_nonempty[OF False] by simp
qed

theorem compute_qcvar_nonneg_witness:
  "finite_values [Fin (1 / 10), NaN, Fin (1 / 2)] = [1 / 10, 1 / 2]
   \<and> (0::real) \<le> 1 / 10 \<and> (0::real) \<le> 1 / 2
   \<and> (\<exists>v. compute_qcvar [Fin (1 / 10), NaN, Fin (1 / 2)] (Fin (95 / 100)) = Some (Fin v)
          \<and> 0 \<le> v)"
proof -
  have h: "\<forall>x\<in>set (finite_values [Fin (1 / 10), NaN, Fin (1 / 2)]). 0 \<le> x" by simp
  from compute_qcvar_nonneg[OF h, of "Fin (95 / 100)"] show ?thesis by simp
qed

section \<open>The governance barrier\<close>

text \<open>
  Claim C5. For all inputs, \<open>validate_governance_barrier\<close> returns
  \<open>omega_ok\<close> = (clamp of the score \<open>\<ge>\<close> clamp of the threshold),
  \<open>qcvar_ok\<close> = (clamp of the qcvar \<open>\<le>\<close> clamp of the limit) and
  \<open>production_ready\<close> = (\<open>omega_ok\<close> and \<open>qcvar_ok\<close>), the clamp bounding into the unit
  interval. The source has no raising operation on this path, so the model is a plain
  total function.
\<close>

theorem validate_governance_barrier_verdict:
  "omega_ok (validate_governance_barrier omega_score qcvar thr lmt)
     = (spec_clamp omega_score 0 1 \<ge> spec_clamp thr 0 1)
   \<and> qcvar_ok (validate_governance_barrier omega_score qcvar thr lmt)
     = (spec_clamp qcvar 0 1 \<le> spec_clamp lmt 0 1)
   \<and> br_production_ready (validate_governance_barrier omega_score qcvar thr lmt)
     = (omega_ok (validate_governance_barrier omega_score qcvar thr lmt)
        \<and> qcvar_ok (validate_governance_barrier omega_score qcvar thr lmt))"
  by (simp add: validate_governance_barrier_def Let_def clamp01_Fin fge_def)

section \<open>The antifragility metric\<close>

text \<open>
  Claim C9. For all \<open>before\<close>, \<open>after\<close> and \<open>stress_applied\<close>, the improvement is
  clamp(after) - clamp(before), a value between -1 and 1; \<open>is_antifragile\<close> holds exactly
  when stress was applied and the improvement is strictly positive; the coefficient is
  the improvement under stress and 0.0 otherwise.
\<close>

theorem antifragile_metric_result:
  "improvement (antifragile_metric before after stress_applied)
     = Fin (spec_clamp after 0 1 - spec_clamp before 0 1)
   \<and> - 1 \<le> spec_clamp after 0 1 - spec_clamp before 0 1
   \<and> spec_clamp after 0 1 - spec_clamp before 0 1 \<le> 1
   \<and> is_antifragile (antifragile_metric before after stress_applied)
     = (stress_applied \<and> spec_clamp after 0 1 - spec_clamp before 0 1 > 0)
   \<and> antifragile_coefficient (antifragile_metric before after stress_applied)
     = (if stress_applied then improvement (antifragile_metric before after stress_applied)
        else Fin 0)"
  using spec_clamp_bounds[of 0 1 after] spec_clamp_bounds[of 0 1 before]
  by (simp add: antifragile_metric_def Let_def clamp01_Fin fsub_def fgt_def)

section \<open>The rolling validator: trimming and stored values\<close>

lemma length_lastn: "length (lastn n xs) = min n (length xs)"
  by (simp add: lastn_def)

lemma lastn_all: "length xs \<le> n \<Longrightarrow> lastn n xs = xs"
  by (simp add: lastn_def)

lemma map_lastn: "map f (lastn n xs) = lastn n (map f xs)"
  by (simp add: lastn_def drop_map)

lemma set_lastn: "set (lastn n xs) \<subseteq> set xs"
  by (simp add: lastn_def set_drop_subset)

lemma lastn_snoc_nonempty: "0 < n \<Longrightarrow> lastn n (xs @ [x]) \<noteq> []"
  by (simp add: lastn_def)

lemma last_lastn_snoc: "0 < n \<Longrightarrow> last (lastn n (xs @ [x])) = x"
  by (simp add: lastn_def)

lemma lastn_lastn_append: "lastn n (lastn n xs @ ys) = lastn n (xs @ ys)"
proof (cases "length xs \<le> n")
  case True
  then show ?thesis by (simp add: lastn_def)
next
  case False
  then have "length ys + (length xs - n) = length xs + length ys - n" by simp
  with False show ?thesis by (simp add: lastn_def)
qed

lemma list_all_lastn: "list_all P xs \<Longrightarrow> list_all P (lastn n xs)"
  using set_lastn[of n xs] by (auto simp: list_all_iff)

lemma trim_loop_lastn: "0 \<le> m \<Longrightarrow> trim_loop xs m = Some (lastn (nat m) xs)"
proof (induction xs m rule: trim_loop.induct)
  case (1 xs m)
  show ?case
  proof (cases "int (length xs) > m")
    case False
    then show ?thesis by (subst trim_loop.simps) (simp add: lastn_def)
  next
    case True
    then obtain x rest where xs: "xs = x # rest" using "1.prems" by (cases xs) auto
    have "trim_loop rest m = Some (lastn (nat m) rest)"
      using "1.IH"[OF True xs] "1.prems" by simp
    moreover have "lastn (nat m) (x # rest) = lastn (nat m) rest"
      using True xs "1.prems" by (simp add: lastn_def Suc_diff_le)
    ultimately show ?thesis using True xs by (subst trim_loop.simps) simp
  qed
qed

lemma trim_history_eq:
  "0 \<le> max_history v \<Longrightarrow>
   trim_history v = Some (v\<lparr>history := lastn (nat (max_history v)) (history v),
                             omega_history := lastn (nat (max_history v)) (omega_history v),
                             cvar_history := lastn (nat (max_history v)) (cvar_history v)\<rparr>)"
  by (simp add: trim_history_def trim_loop_lastn)

lemma unit_interval_clamp01: "unit_interval (clamp01 x)"
  using spec_clamp_bounds[of 0 1 x] by (simp add: clamp01_Fin unit_interval_def)

lemma finite_values_unit:
  "list_all unit_interval xs \<Longrightarrow> \<forall>x\<in>set (finite_values xs). 0 \<le> x \<and> x \<le> 1"
  by (induction xs rule: finite_values.induct) (auto simp: unit_interval_def)

lemma compute_qcvar_history_unit:
  assumes "list_all unit_interval (cvar_history v)"
  shows "\<exists>q. compute_qcvar_history v = Some q \<and> unit_interval q"
  using compute_qcvar_unit[OF finite_values_unit[OF assms], of "qcvar_alpha v"]
  by (auto simp: compute_qcvar_history_def unit_interval_def)

section \<open>The rolling validator: one call\<close>

text \<open>What \<open>validate_system\<close> returns and leaves behind, in a state satisfying the
  invariant: it never raises.\<close>

lemma validate_system_step:
  assumes inv: "validator_inv hp v K"
  shows "\<exists>om q. compute_omega psi theta cvar weights = Some om \<and> unit_interval om
           \<and> compute_qcvar (lastn (nat (max_history v)) (cvar_history v @ [clamp01 cvar]))
                (qcvar_alpha v) = Some q
           \<and> unit_interval q
           \<and> validate_system hp v psi theta cvar weights =
               Some (\<lparr>vr_omega = om, vr_qcvar = q,
                        vr_production_ready = br_production_ready
                          (validate_governance_barrier om q (omega_threshold v) (qcvar_limit v)),
                        history_size = length (lastn (nat (max_history v)) (history v @ [length hp]))\<rparr>,
                     hp @ [[(''psi'', clamp01 psi), (''theta'', clamp01 theta),
                            (''cvar'', clamp01 cvar), (''omega'', om)]],
                     v\<lparr>history := lastn (nat (max_history v)) (history v @ [length hp]),
                        omega_history := lastn (nat (max_history v)) (omega_history v @ [om]),
                        cvar_history := lastn (nat (max_history v)) (cvar_history v @ [clamp01 cvar])\<rparr>)"
proof -
  obtain r where om: "compute_omega psi theta cvar weights = Some (Fin r)" and r: "0 \<le> r" "r \<le> 1"
    using compute_omega_bounded by blast
  define v1 where "v1 = v\<lparr>history := history v @ [length hp],
                           omega_history := omega_history v @ [Fin r],
                           cvar_history := cvar_history v @ [clamp01 cvar]\<rparr>"
  define v2 where "v2 = v\<lparr>history := lastn (nat (max_history v)) (history v @ [length hp]),
                        omega_history := lastn (nat (max_history v)) (omega_history v @ [Fin r]),
                        cvar_history := lastn (nat (max_history v)) (cvar_history v @ [clamp01 cvar])\<rparr>"
  have mh: "0 \<le> max_history v1" using inv by (simp add: validator_inv_def v1_def)
  have tr: "trim_history v1 = Some v2"
    unfolding trim_history_eq[OF mh] by (simp add: v1_def v2_def)
  have "list_all unit_interval (cvar_history v @ [clamp01 cvar])"
    using inv by (simp add: validator_inv_def unit_interval_clamp01)
  then have "list_all unit_interval (cvar_history v2)"
    by (simp add: v2_def list_all_lastn)
  from compute_qcvar_history_unit[OF this]
  obtain q where q: "compute_qcvar_history v2 = Some q" and qu: "unit_interval q" by blast
  have "validate_system hp v psi theta cvar weights =
      Some (\<lparr>vr_omega = Fin r, vr_qcvar = q,
               vr_production_ready = br_production_ready
                 (validate_governance_barrier (Fin r) q (omega_threshold v2) (qcvar_limit v2)),
               history_size = length (history v2)\<rparr>,
            hp @ [[(''psi'', clamp01 psi), (''theta'', clamp01 theta),
                   (''cvar'', clamp01 cvar), (''omega'', Fin r)]], v2)"
    unfolding validate_system_def om
    by (simp add: Let_def alloc_def v1_def[symmetric] tr q)
  moreover have "compute_qcvar (lastn (nat (max_history v)) (cvar_history v @ [clamp01 cvar]))
                (qcvar_alpha v) = Some q"
    using q by (simp add: compute_qcvar_history_def v2_def)
  ultimately show ?thesis
    using om r qu by (simp add: v2_def unit_interval_def)
qed

lemma copy_all_eq:
  "list_all (\<lambda>a. a < length hp) as \<Longrightarrow>
     copy_all hp as = ([length hp ..< length hp + length as], hp @ map (\<lambda>a. hp ! a) as)"
proof (induction as arbitrary: hp)
  case Nil
  then show ?case by simp
next
  case (Cons a as)
  have "list_all (\<lambda>b. b < length (hp @ [hp ! a])) as"
    using Cons.prems by (auto simp: list_all_iff)
  from Cons.IH[OF this]
  have ih: "copy_all (hp @ [hp ! a]) as =
      ([length (hp @ [hp ! a]) ..< length (hp @ [hp ! a]) + length as],
       (hp @ [hp ! a]) @ map (\<lambda>b. (hp @ [hp ! a]) ! b) as)" .
  have m: "map (\<lambda>b. (hp @ [hp ! a]) ! b) as = map (\<lambda>b. hp ! b) as"
    using Cons.prems by (auto simp: list_all_iff nth_append)
  have u: "[length hp ..< length hp + length (a # as)] =
      length hp # [length (hp @ [hp ! a]) ..< length (hp @ [hp ! a]) + length as]"
    by (simp add: upt_conv_Cons del: upt_Suc)
  show ?case
    unfolding u copy_all.simps alloc_def Let_def prod.case ih m by simp
qed

text \<open>What \<open>get_validation_summary\<close> returns: references to new dictionaries, placed
  after everything allocated before.\<close>

lemma summary_eq:
  assumes inv: "validator_inv hp v K"
  shows "\<exists>q. (if cvar_history v \<noteq> [] then compute_qcvar_history v else Some (Fin 0)) = Some q
           \<and> unit_interval q
           \<and> get_validation_summary hp v =
               Some (\<lparr>latest = (if history v = [] then length hp
                                 else length hp + length (history v) - 1),
                        summary_history = [length hp ..< length hp + length (history v)],
                        vs_qcvar = q,
                        vs_omega_threshold = omega_threshold v,
                        vs_qcvar_limit = qcvar_limit v\<rparr>,
                     hp @ map (\<lambda>a. hp ! a) (history v) @ (if history v = [] then [[]] else []))"
proof -
  have "list_all (\<lambda>a. a < length hp) (history v)"
    using inv by (auto simp: validator_inv_def list_all_iff)
  note c = copy_all_eq[OF this]
  have "list_all unit_interval (cvar_history v)" using inv by (simp add: validator_inv_def)
  from compute_qcvar_history_unit[OF this]
  obtain q0 where q0: "compute_qcvar_history v = Some q0" "unit_interval q0" by blast
  define q where "q = (if cvar_history v \<noteq> [] then q0 else Fin 0)"
  have q: "(if cvar_history v \<noteq> [] then compute_qcvar_history v else Some (Fin 0)) = Some q"
    using q0 by (simp add: q_def)
  have qu: "unit_interval q" using q0 by (simp add: q_def unit_interval_def)
  have "get_validation_summary hp v =
               Some (\<lparr>latest = (if history v = [] then length hp
                                 else length hp + length (history v) - 1),
                        summary_history = [length hp ..< length hp + length (history v)],
                        vs_qcvar = q,
                        vs_omega_threshold = omega_threshold v,
                        vs_qcvar_limit = qcvar_limit v\<rparr>,
                     hp @ map (\<lambda>a. hp ! a) (history v) @ (if history v = [] then [[]] else []))"
  proof (cases "history v = []")
    case True
    then show ?thesis
      unfolding get_validation_summary_def c q by (simp add: alloc_def)
  next
    case False
    then have "last [length hp ..< length hp + length (history v)] = length hp + length (history v) - 1"
      by (cases "length (history v)") simp_all
    with False show ?thesis
      unfolding get_validation_summary_def c q by (simp add: alloc_def)
  qed
  with q qu show ?thesis by blast
qed

lemma init_inv: "validator_inv hp (OmegaValidator_init thr lmt alpha mh ms) {..<length hp}"
  by (simp add: validator_inv_def OmegaValidator_init_def)

lemma validate_inv:
  assumes inv: "validator_inv hp v K"
    and step: "validate_system hp v psi theta cvar weights = Some (r, hp', v')"
  shows "validator_inv hp' v' K"
proof -
  from validate_system_step[OF inv, of psi theta cvar weights] step
  obtain om where hp': "hp' = hp @ [[(''psi'', clamp01 psi), (''theta'', clamp01 theta),
                            (''cvar'', clamp01 cvar), (''omega'', om)]]"
    and v': "v' = v\<lparr>history := lastn (nat (max_history v)) (history v @ [length hp]),
                        omega_history := lastn (nat (max_history v)) (omega_history v @ [om]),
                        cvar_history := lastn (nat (max_history v)) (cvar_history v @ [clamp01 cvar])\<rparr>"
    by auto
  have a: "list_all (\<lambda>a. a < length hp' \<and> a \<notin> K) (history v @ [length hp])"
    using inv unfolding hp' by (auto simp: validator_inv_def list_all_iff)
  have b: "list_all unit_interval (cvar_history v @ [clamp01 cvar])"
    using inv by (simp add: validator_inv_def unit_interval_clamp01)
  have k: "K \<subseteq> {..<length hp'}" using inv unfolding hp' by (auto simp: validator_inv_def)
  have l: "int (min (nat (max_history v)) (Suc (length (history v)))) \<le> max_history v"
    using inv unfolding validator_inv_def by linarith
  show ?thesis
    using inv list_all_lastn[OF a] list_all_lastn[OF b] k l
    unfolding v' by (simp add: validator_inv_def length_lastn)
qed

lemma summary_inv:
  assumes inv: "validator_inv hp v K"
    and step: "get_validation_summary hp v = Some (s, hp')"
  shows "validator_inv hp' v (K \<union> set (summary_history s) \<union> {latest s})"
proof -
  from summary_eq[OF inv] step
  have hp': "hp' = hp @ map (\<lambda>a. hp ! a) (history v) @ (if history v = [] then [[]] else [])"
    and sh: "summary_history s = [length hp ..< length hp + length (history v)]"
    and la: "latest s = (if history v = [] then length hp else length hp + length (history v) - 1)"
    by auto
  have ge: "length hp \<le> latest s \<and> latest s < length hp'"
    unfolding la hp' by (cases "history v") simp_all
  have "list_all (\<lambda>a. a < length hp' \<and> a \<notin> K \<union> set (summary_history s) \<union> {latest s})
          (history v)"
    using inv ge unfolding validator_inv_def hp' sh by (auto simp: list_all_iff)
  moreover have "K \<union> set (summary_history s) \<union> {latest s} \<subseteq> {..<length hp'}"
    using inv ge unfolding validator_inv_def sh by (auto simp: hp')
  ultimately show ?thesis
    using inv unfolding validator_inv_def by simp
qed

lemma reset_inv: "validator_inv hp v K \<Longrightarrow> validator_inv hp (reset v) K"
  by (simp add: validator_inv_def reset_def)

lemma update_inv: "validator_inv hp v K \<Longrightarrow> validator_inv (hp[a := d]) v K"
  by (simp add: validator_inv_def)

lemma alloc_inv: "validator_inv hp v K \<Longrightarrow> validator_inv (hp @ [d]) v (K \<union> {length hp})"
  by (auto simp: validator_inv_def list_all_iff)

lemma reachable_inv: "reachable hp v K \<Longrightarrow> validator_inv hp v K"
proof (induction rule: reachable.induct)
  case (construct hp thr lmt alpha mh ms)
  show ?case by (rule init_inv)
next
  case (validate hp v K psi theta cvar weights r hp' v')
  then show ?case by (blast intro: validate_inv)
next
  case (summary hp v K s hp')
  then show ?case by (blast intro: summary_inv)
next
  case (cleared hp v K)
  then show ?case by (blast intro: reset_inv)
next
  case (caller_update hp v K a d)
  then show ?case by (blast intro: update_inv)
next
  case (caller_alloc hp v K d)
  then show ?case by (blast intro: alloc_inv)
qed

section \<open>Evaluating concrete runs\<close>

lemmas float_eval = clamp_def clamp01_def DEF_MIN_def DEF_MAX_def py_max_def py_min_def
  fgt_def fge_def fsub_def signed_inf_def

lemmas score_eval = compute_omega_def normalized_def default_weights_def compute_qcvar_def
  sorted_desc_def validate_governance_barrier_def

lemmas validator_eval = validate_system_def trim_history_def compute_qcvar_history_def
  alloc_def OmegaValidator_init_def get_system_health_def reset_def

lemma trim_loop_short: "int (length xs) \<le> m \<Longrightarrow> trim_loop xs m = Some xs"
  by (subst trim_loop.simps) simp

lemma trim_loop_pop: "int (length (x # xs)) > m \<Longrightarrow> trim_loop (x # xs) m = trim_loop xs m"
  by (subst trim_loop.simps) simp

lemma ex_init: "OmegaValidator_init (Fin (9 / 10)) (Fin (1 / 10)) (Fin (9 / 10)) 100 3 = ex_validator [] [] []"
  by (simp add: float_eval validator_eval)

lemma ex_step1:
  "validate_system [] (ex_validator [] [] []) (Fin (9 / 10)) (Fin (9 / 10)) (Fin (5 / 100)) None =
   Some (\<lparr>vr_omega = Fin (91 / 100), vr_qcvar = Fin (1 / 20),
            vr_production_ready = True, history_size = 1\<rparr>,
         [ex_entry], ex_validator [0] [Fin (91 / 100)] [Fin (1 / 20)])"
  by (simp add: float_eval score_eval validator_eval trim_loop_short Let_def)

lemma ex_step2:
  "validate_system [ex_entry] (ex_validator [0] [Fin (91 / 100)] [Fin (1 / 20)])
      (Fin (9 / 10)) (Fin (9 / 10)) (Fin (5 / 100)) None =
   Some (\<lparr>vr_omega = Fin (91 / 100), vr_qcvar = Fin (1 / 20),
            vr_production_ready = True, history_size = 2\<rparr>,
         [ex_entry, ex_entry],
         ex_validator [0, 1] [Fin (91 / 100), Fin (91 / 100)] [Fin (1 / 20), Fin (1 / 20)])"
  by (simp add: float_eval score_eval validator_eval trim_loop_short Let_def)

lemma ex_reachable:
  "reachable [ex_entry, ex_entry]
     (ex_validator [0, 1] [Fin (91 / 100), Fin (91 / 100)] [Fin (1 / 20), Fin (1 / 20)]) {}"
proof -
  have "reachable [] (OmegaValidator_init (Fin (9 / 10)) (Fin (1 / 10)) (Fin (9 / 10)) 100 3)
          {..<length ([] :: heap)}"
    by (rule reachable.construct)
  then have "reachable [] (ex_validator [] [] []) {}"
    by (simp add: ex_init)
  then have "reachable [ex_entry] (ex_validator [0] [Fin (91 / 100)] [Fin (1 / 20)]) {}"
    by (rule reachable.validate[OF _ ex_step1])
  then show ?thesis
    by (rule reachable.validate[OF _ ex_step2])
qed

lemma ex_qcvar: "compute_qcvar [Fin (1 / 20), Fin (1 / 20)] (Fin (9 / 10)) = Some (Fin (1 / 20))"
  by (simp add: float_eval score_eval)

section \<open>The health report\<close>

lemma health_eq:
  assumes inv: "validator_inv hp v K"
  shows "\<exists>q. (if cvar_history v \<noteq> [] then compute_qcvar_history v else Some (Fin 0)) = Some q
           \<and> unit_interval q
           \<and> get_system_health v =
               Some \<lparr>latest_omega = (if omega_history v \<noteq> [] then last (omega_history v) else Fin 0),
                      sh_qcvar = q,
                      sh_production_ready =
                        (if int (length (history v)) \<ge> min_samples v
                         then br_production_ready
                                (validate_governance_barrier
                                   (if omega_history v \<noteq> [] then last (omega_history v) else Fin 0)
                                   q (omega_threshold v) (qcvar_limit v))
                         else False),
                      sample_count = length (history v)\<rparr>"
proof -
  have "list_all unit_interval (cvar_history v)" using inv by (simp add: validator_inv_def)
  from compute_qcvar_history_unit[OF this]
  obtain q0 where q0: "compute_qcvar_history v = Some q0" "unit_interval q0" by blast
  define q where "q = (if cvar_history v \<noteq> [] then q0 else Fin 0)"
  have q: "(if cvar_history v \<noteq> [] then compute_qcvar_history v else Some (Fin 0)) = Some q"
    using q0 by (simp add: q_def)
  have qu: "unit_interval q" using q0 by (simp add: q_def unit_interval_def)
  show ?thesis
    using q qu unfolding get_system_health_def by (simp add: Let_def)
qed

lemma health_after_reset:
  assumes inv: "validator_inv hp v K"
  shows "get_system_health (reset v) =
           Some \<lparr>latest_omega = Fin 0, sh_qcvar = Fin 0, sh_production_ready = False,
                  sample_count = 0\<rparr>"
  using inv by (simp add: get_system_health_def reset_def validator_inv_def Let_def)

lemma health_after_validate:
  assumes inv: "validator_inv hp v K"
  shows "\<exists>r hp' v' h'. validate_system hp v psi theta cvar weights = Some (r, hp', v')
           \<and> get_system_health v' = Some h'
           \<and> latest_omega h' = vr_omega r \<and> sh_qcvar h' = vr_qcvar r"
proof -
  from validate_system_step[OF inv, of psi theta cvar weights]
  obtain om q r hp' v' where
    q: "compute_qcvar (lastn (nat (max_history v)) (cvar_history v @ [clamp01 cvar]))
                (qcvar_alpha v) = Some q"
    and st: "validate_system hp v psi theta cvar weights = Some (r, hp', v')"
    and r: "vr_omega r = om" "vr_qcvar r = q"
    and v': "v' = v\<lparr>history := lastn (nat (max_history v)) (history v @ [length hp]),
                        omega_history := lastn (nat (max_history v)) (omega_history v @ [om]),
                        cvar_history := lastn (nat (max_history v)) (cvar_history v @ [clamp01 cvar])\<rparr>"
    by force
  have m: "0 < nat (max_history v)" using inv by (simp add: validator_inv_def)
  have inv': "validator_inv hp' v' K" using validate_inv[OF inv st] .
  have ne: "omega_history v' \<noteq> []" "cvar_history v' \<noteq> []"
    unfolding v' using lastn_snoc_nonempty[OF m] by simp_all
  have la: "last (omega_history v') = om"
    unfolding v' using last_lastn_snoc[OF m] by simp
  have cq: "compute_qcvar_history v' = Some q"
    using q by (simp add: compute_qcvar_history_def v')
  from health_eq[OF inv'] obtain h' where "get_system_health v' = Some h'"
    "latest_omega h' = om" "sh_qcvar h' = q"
    using ne la cq by auto
  with st r show ?thesis by auto
qed

text \<open>
  Claim C1. In every state a validator can reach, \<open>get_system_health\<close> raises nothing
  and reports: as \<open>latest_omega\<close> the most recently recorded omega (0.0 when the history
  is empty); as \<open>qcvar\<close> the estimator over the current cvar history (0.0 when empty); as
  \<open>production_ready\<close> the barrier's verdict on these two, forced to false when
  \<open>sample_count\<close> is below \<open>min_samples\<close>; as \<open>sample_count\<close> the length of the
  history. After \<open>reset\<close> it reports \<open>sample_count = 0\<close> and
  \<open>production_ready = false\<close>. Right after a \<open>validate_system\<close> call, \<open>latest_omega\<close> and
  \<open>qcvar\<close> are the omega and the qcvar that call returned.
\<close>

theorem get_system_health_report:
  assumes "reachable hp v K"
  shows "\<exists>h. get_system_health v = Some h
           \<and> latest_omega h = (if history v = [] then Fin 0 else last (omega_history v))
           \<and> Some (sh_qcvar h) = (if history v = [] then Some (Fin 0)
                                    else compute_qcvar (cvar_history v) (qcvar_alpha v))
           \<and> sh_production_ready h =
               (br_production_ready
                  (validate_governance_barrier (latest_omega h) (sh_qcvar h)
                     (omega_threshold v) (qcvar_limit v))
                \<and> \<not> int (sample_count h) < min_samples v)
           \<and> sample_count h = length (history v)
           \<and> (\<exists>h0. get_system_health (reset v) = Some h0
                  \<and> sample_count h0 = 0 \<and> \<not> sh_production_ready h0)
           \<and> (\<exists>r hp' v' h'. validate_system hp v psi theta cvar weights = Some (r, hp', v')
                  \<and> get_system_health v' = Some h'
                  \<and> latest_omega h' = vr_omega r \<and> sh_qcvar h' = vr_qcvar r)"
proof -
  have inv: "validator_inv hp v K" using assms by (rule reachable_inv)
  have e: "(omega_history v = []) = (history v = [])" "(cvar_history v = []) = (history v = [])"
    using inv by (auto simp: validator_inv_def)
  from health_eq[OF inv] obtain q h where
    q: "(if cvar_history v \<noteq> [] then compute_qcvar_history v else Some (Fin 0)) = Some q"
    and g: "get_system_health v = Some h"
    and hd: "h = \<lparr>latest_omega = (if omega_history v \<noteq> [] then last (omega_history v) else Fin 0),
                      sh_qcvar = q,
                      sh_production_ready =
                        (if int (length (history v)) \<ge> min_samples v
                         then br_production_ready
                                (validate_governance_barrier
                                   (if omega_history v \<noteq> [] then last (omega_history v) else Fin 0)
                                   q (omega_threshold v) (qcvar_limit v))
                         else False),
                      sample_count = length (history v)\<rparr>"
    by blast
  have h1: "latest_omega h = (if history v = [] then Fin 0 else last (omega_history v))"
    unfolding hd using e by simp
  have h2: "Some (sh_qcvar h) = (if history v = [] then Some (Fin 0)
                                    else compute_qcvar (cvar_history v) (qcvar_alpha v))"
    unfolding hd using q e by (simp add: compute_qcvar_history_def split: if_splits)
  have h3: "sh_production_ready h =
               (br_production_ready
                  (validate_governance_barrier (latest_omega h) (sh_qcvar h)
                     (omega_threshold v) (qcvar_limit v))
                \<and> \<not> int (sample_count h) < min_samples v)"
    unfolding hd by (simp add: not_less)
  have h4: "sample_count h = length (history v)"
    unfolding hd by simp
  note g h1 h2 h3 h4
  moreover have "\<exists>h0. get_system_health (reset v) = Some h0
                  \<and> sample_count h0 = 0 \<and> \<not> sh_production_ready h0"
    using health_after_reset[OF inv] by simp
  moreover note health_after_validate[OF inv, of psi theta cvar weights]
  ultimately show ?thesis by blast
qed

theorem get_system_health_report_witness:
  "reachable [ex_entry, ex_entry]
     (ex_validator [0, 1] [Fin (91 / 100), Fin (91 / 100)] [Fin (1 / 20), Fin (1 / 20)]) {}
   \<and> (\<exists>h. get_system_health
             (ex_validator [0, 1] [Fin (91 / 100), Fin (91 / 100)] [Fin (1 / 20), Fin (1 / 20)])
             = Some h
          \<and> latest_omega h = Fin (91 / 100) \<and> sh_qcvar h = Fin (1 / 20)
          \<and> sample_count h = 2
          \<and> br_production_ready
               (validate_governance_barrier (latest_omega h) (sh_qcvar h) (Fin (9 / 10)) (Fin (1 / 10)))
          \<and> \<not> sh_production_ready h)
   \<and> (\<exists>h0. get_system_health
              (reset (ex_validator [0, 1] [Fin (91 / 100), Fin (91 / 100)]
                        [Fin (1 / 20), Fin (1 / 20)])) = Some h0
           \<and> sample_count h0 = 0 \<and> \<not> sh_production_ready h0)"
proof -
  let ?v = "ex_validator [0, 1] [Fin (91 / 100), Fin (91 / 100)] [Fin (1 / 20), Fin (1 / 20)]"
  from get_system_health_report[OF ex_reachable, of "Fin 0" "Fin 0" "Fin 0" None]
  obtain h h0 where g: "get_system_health ?v = Some h"
    and lo: "latest_omega h = (if history ?v = [] then Fin 0 else last (omega_history ?v))"
    and q: "Some (sh_qcvar h) = (if history ?v = [] then Some (Fin 0)
                                  else compute_qcvar (cvar_history ?v) (qcvar_alpha ?v))"
    and pr: "sh_production_ready h =
               (br_production_ready
                  (validate_governance_barrier (latest_omega h) (sh_qcvar h)
                     (omega_threshold ?v) (qcvar_limit ?v))
                \<and> \<not> int (sample_count h) < min_samples ?v)"
    and sc: "sample_count h = length (history ?v)"
    and r: "get_system_health (reset ?v) = Some h0" "sample_count h0 = 0" "\<not> sh_production_ready h0"
    by blast
  have lo': "latest_omega h = Fin (91 / 100)" using lo by simp
  have q': "sh_qcvar h = Fin (1 / 20)" using q by (simp add: ex_qcvar)
  have sc': "sample_count h = 2" using sc by simp
  have b: "br_production_ready
               (validate_governance_barrier (latest_omega h) (sh_qcvar h) (Fin (9 / 10)) (Fin (1 / 10)))"
    unfolding lo' q' by (simp add: float_eval validate_governance_barrier_def)
  have np: "\<not> sh_production_ready h" using pr sc' by simp
  show ?thesis
    using ex_reachable g lo' q' sc' b np r by blast
qed

section \<open>The qcvar the validator reports\<close>

text \<open>A single finite sample is its own tail mean, whatever its size.\<close>

lemma compute_qcvar_singleton: "compute_qcvar [Fin x] alpha = Some (Fin x)"
proof -
  have ne: "finite_values [Fin x] \<noteq> []" by simp
  have "spec_tail_size (length (finite_values [Fin x])) alpha = 1"
    using spec_tail_size_bounds[of "length (finite_values [Fin x])" alpha] by simp
  then show ?thesis
    unfolding compute_qcvar_nonempty[OF ne] by (simp add: sorted_desc_def)
qed

text \<open>
  Claim C10. In every state a validator can reach, every stored cvar lies in the unit
  interval, and so does the qcvar returned by \<open>validate_system\<close> (for any arguments),
  by \<open>get_system_health\<close> and by \<open>get_validation_summary\<close>, none of which raises;
  the standalone \<open>compute_qcvar\<close> has no such bound, as the sample list \<open>[2.0]\<close> shows.
\<close>

theorem validator_qcvar_unit_interval:
  assumes "reachable hp v K"
  shows "list_all unit_interval (cvar_history v)
         \<and> (\<exists>r hp' v'. validate_system hp v psi theta cvar weights = Some (r, hp', v')
                \<and> unit_interval (vr_qcvar r))
         \<and> (\<exists>h. get_system_health v = Some h \<and> unit_interval (sh_qcvar h))
         \<and> (\<exists>s hp'. get_validation_summary hp v = Some (s, hp') \<and> unit_interval (vs_qcvar s))
         \<and> compute_qcvar [Fin 2] alpha = Some (Fin 2)"
proof -
  have inv: "validator_inv hp v K" using assms by (rule reachable_inv)
  have a: "list_all unit_interval (cvar_history v)"
    using inv by (simp add: validator_inv_def)
  from validate_system_step[OF inv, of psi theta cvar weights]
  have b: "\<exists>r hp' v'. validate_system hp v psi theta cvar weights = Some (r, hp', v')
                \<and> unit_interval (vr_qcvar r)"
    by force
  from health_eq[OF inv]
  have c: "\<exists>h. get_system_health v = Some h \<and> unit_interval (sh_qcvar h)"
    by force
  from summary_eq[OF inv]
  have d: "\<exists>s hp'. get_validation_summary hp v = Some (s, hp') \<and> unit_interval (vs_qcvar s)"
    by force
  show ?thesis
    using a b c d compute_qcvar_singleton by blast
qed

theorem validator_qcvar_unit_interval_witness:
  "reachable [ex_entry, ex_entry]
     (ex_validator [0, 1] [Fin (91 / 100), Fin (91 / 100)] [Fin (1 / 20), Fin (1 / 20)]) {}
   \<and> list_all unit_interval [Fin (1 / 20), Fin (1 / 20)]
   \<and> (\<exists>r hp' v'. validate_system [ex_entry, ex_entry]
          (ex_validator [0, 1] [Fin (91 / 100), Fin (91 / 100)] [Fin (1 / 20), Fin (1 / 20)])
          (Fin 2) NaN (Fin (3 / 10)) None = Some (r, hp', v')
        \<and> unit_interval (vr_qcvar r))
   \<and> (\<exists>h. get_system_health
          (ex_validator [0, 1] [Fin (91 / 100), Fin (91 / 100)] [Fin (1 / 20), Fin (1 / 20)])
          = Some h \<and> unit_interval (sh_qcvar h))
   \<and> (\<exists>s hp'. get_validation_summary [ex_entry, ex_entry]
          (ex_validator [0, 1] [Fin (91 / 100), Fin (91 / 100)] [Fin (1 / 20), Fin (1 / 20)])
          = Some (s, hp') \<and> unit_interval (vs_qcvar s))"
  using ex_reachable
    validator_qcvar_unit_interval[OF ex_reachable, of "Fin 2" NaN "Fin (3 / 10)" None "Fin 0"]
  by simp

section \<open>The bounded history\<close>

text \<open>Reading a summary's references in the heap it returns gives the stored records.\<close>

lemma map_nth_middle:
  "map ((!) (xs @ ys @ zs)) [length xs ..< length xs + length ys] = ys"
  by (rule nth_equalityI) (simp_all add: nth_append)

lemma summary_reads_stored:
  assumes inv: "validator_inv hp v K"
  shows "\<exists>s hp'. get_validation_summary hp v = Some (s, hp')
           \<and> length (summary_history s) = length (history v)
           \<and> map ((!) hp') (summary_history s) = stored_records hp v
           \<and> hp' ! latest s = (if history v = [] then [] else last (stored_records hp v))"
proof -
  from summary_eq[OF inv] obtain s hp' where
    g: "get_validation_summary hp v = Some (s, hp')"
    and sh: "summary_history s = [length hp ..< length hp + length (history v)]"
    and la: "latest s = (if history v = [] then length hp else length hp + length (history v) - 1)"
    and hp': "hp' = hp @ map (\<lambda>a. hp ! a) (history v) @ (if history v = [] then [[]] else [])"
    by force
  have m: "map ((!) hp') (summary_history s) = stored_records hp v"
    unfolding sh hp' stored_records_def
    using map_nth_middle[of hp "map ((!) hp) (history v)"] by simp
  have l: "hp' ! latest s = (if history v = [] then [] else last (stored_records hp v))"
  proof (cases "history v = []")
    case True
    then show ?thesis unfolding la hp' by simp
  next
    case False
    then have "length hp + length (history v) - 1 = length hp + (length (history v) - 1)"
      by (cases "history v") simp_all
    with False show ?thesis
      unfolding la hp' stored_records_def
      by (simp add: nth_append last_conv_nth)
  qed
  show ?thesis using g sh m l by simp
qed

lemma stored_after_validate:
  assumes inv: "validator_inv hp v K"
    and step: "validate_system hp v psi theta cvar weights = Some (r, hp', v')"
  shows "stored_records hp' v' =
           lastn (nat (max_history v)) (stored_records hp v @ [record_of (psi, theta, cvar, weights) r])
         \<and> omega_history v' = lastn (nat (max_history v)) (omega_history v @ [vr_omega r])
         \<and> cvar_history v' = lastn (nat (max_history v)) (cvar_history v @ [clamp01 cvar])
         \<and> max_history v' = max_history v"
proof -
  from validate_system_step[OF inv, of psi theta cvar weights] step
  obtain om where hp': "hp' = hp @ [[(''psi'', clamp01 psi), (''theta'', clamp01 theta),
                            (''cvar'', clamp01 cvar), (''omega'', om)]]"
    and v': "v' = v\<lparr>history := lastn (nat (max_history v)) (history v @ [length hp]),
                        omega_history := lastn (nat (max_history v)) (omega_history v @ [om]),
                        cvar_history := lastn (nat (max_history v)) (cvar_history v @ [clamp01 cvar])\<rparr>"
    and r: "vr_omega r = om"
    by auto
  have old: "map ((!) hp') (history v) = map ((!) hp) (history v)"
    using inv unfolding hp' by (auto simp: validator_inv_def list_all_iff nth_append)
  have "stored_records hp' v' = lastn (nat (max_history v)) (map ((!) hp') (history v @ [length hp]))"
    unfolding stored_records_def v' by (simp add: map_lastn)
  also have "map ((!) hp') (history v @ [length hp]) =
      stored_records hp v @ [record_of (psi, theta, cvar, weights) r]"
    using old unfolding stored_records_def by (simp add: hp' record_of_def r)
  finally show ?thesis using r by (simp add: v')
qed

lemma validate_many_run:
  "validator_inv hp v K \<Longrightarrow>
   \<exists>rs hp' v'. validate_many hp v cs = Some (rs, hp', v') \<and> length rs = length cs
     \<and> validator_inv hp' v' K
     \<and> max_history v' = max_history v
     \<and> stored_records hp' v' =
         lastn (nat (max_history v)) (stored_records hp v @ map2 record_of cs rs)
     \<and> omega_history v' = lastn (nat (max_history v)) (omega_history v @ map vr_omega rs)
     \<and> cvar_history v' =
         lastn (nat (max_history v))
           (cvar_history v @ map (\<lambda>(psi, theta, cvar, weights). clamp01 cvar) cs)"
proof (induction cs arbitrary: hp v)
  case Nil
  then have l: "length (history v) \<le> nat (max_history v)"
    unfolding validator_inv_def by linarith
  then have "length (omega_history v) \<le> nat (max_history v)"
    "length (cvar_history v) \<le> nat (max_history v)"
    using Nil by (simp_all add: validator_inv_def)
  with l Nil show ?case by (simp add: lastn_all stored_records_def)
next
  case (Cons c cs)
  obtain psi theta cvar weights where c: "c = (psi, theta, cvar, weights)"
    by (cases c) auto
  from validate_system_step[OF Cons.prems, of psi theta cvar weights]
  obtain r hp1 v1 where st: "validate_system hp v psi theta cvar weights = Some (r, hp1, v1)"
    by blast
  have inv1: "validator_inv hp1 v1 K" by (rule validate_inv[OF Cons.prems st])
  note s1 = stored_after_validate[OF Cons.prems st]
  from Cons.IH[OF inv1] obtain rs hp' v' where
    run: "validate_many hp1 v1 cs = Some (rs, hp', v')" and len: "length rs = length cs"
    and inv': "validator_inv hp' v' K" and mh: "max_history v' = max_history v1"
    and sr: "stored_records hp' v' =
         lastn (nat (max_history v1)) (stored_records hp1 v1 @ map2 record_of cs rs)"
    and oh: "omega_history v' = lastn (nat (max_history v1)) (omega_history v1 @ map vr_omega rs)"
    and ch: "cvar_history v' =
         lastn (nat (max_history v1))
           (cvar_history v1 @ map (\<lambda>(psi, theta, cvar, weights). clamp01 cvar) cs)"
    by blast
  have "validate_many hp v (c # cs) = Some (r # rs, hp', v')"
    by (simp add: c st run)
  moreover have "stored_records hp' v' =
         lastn (nat (max_history v)) (stored_records hp v @ map2 record_of (c # cs) (r # rs))"
    unfolding sr using s1 by (simp add: lastn_lastn_append c)
  moreover have "omega_history v' =
         lastn (nat (max_history v)) (omega_history v @ map vr_omega (r # rs))"
    unfolding oh using s1 by (simp add: lastn_lastn_append)
  moreover have "cvar_history v' =
         lastn (nat (max_history v))
           (cvar_history v @ map (\<lambda>(psi, theta, cvar, weights). clamp01 cvar) (c # cs))"
    unfolding ch using s1 by (simp add: lastn_lastn_append c)
  ultimately show ?case using len inv' mh s1 by simp
qed

lemma ex_run3:
  "validate_many [] (OmegaValidator_init (Fin (9 / 10)) (Fin (1 / 10)) (Fin (9 / 10)) 2 5)
     [(Fin (9 / 10), Fin (9 / 10), Fin (5 / 100), None),
      (Fin (8 / 10), Fin (85 / 100), Fin (1 / 10), None),
      (Fin (7 / 10), Fin (8 / 10), Fin (15 / 100), None)] =
   Some ([\<lparr>vr_omega = Fin (91 / 100), vr_qcvar = Fin (1 / 20),
             vr_production_ready = True, history_size = 1\<rparr>,
          \<lparr>vr_omega = Fin (67 / 80), vr_qcvar = Fin (1 / 10),
             vr_production_ready = False, history_size = 2\<rparr>,
          \<lparr>vr_omega = Fin (153 / 200), vr_qcvar = Fin (3 / 20),
             vr_production_ready = False, history_size = 2\<rparr>],
         [[(''psi'', Fin (9 / 10)), (''theta'', Fin (9 / 10)),
           (''cvar'', Fin (1 / 20)), (''omega'', Fin (91 / 100))],
          [(''psi'', Fin (4 / 5)), (''theta'', Fin (17 / 20)),
           (''cvar'', Fin (1 / 10)), (''omega'', Fin (67 / 80))],
          [(''psi'', Fin (7 / 10)), (''theta'', Fin (4 / 5)),
           (''cvar'', Fin (3 / 20)), (''omega'', Fin (153 / 200))]],
         \<lparr>omega_threshold = Fin (9 / 10), qcvar_limit = Fin (1 / 10),
           qcvar_alpha = Fin (9 / 10), max_history = 2, min_samples = 5,
           history = [1, 2], omega_history = [Fin (67 / 80), Fin (153 / 200)],
           cvar_history = [Fin (1 / 10), Fin (3 / 20)]\<rparr>)"
  by (simp add: float_eval score_eval validator_eval trim_loop_short trim_loop_pop Let_def)

text \<open>
  Claim C2. From every state a validator can reach, every sequence of
  \<open>validate_system\<close> calls runs without raising and leaves the three histories equal in
  length and no longer than \<open>max_history\<close>; each holds the last \<open>max_history\<close> entries of
  what was there followed by what the calls added, in order (the oldest are evicted
  first). A summary taken then reads exactly the stored records. In particular a
  validator constructed with \<open>max_history = 2\<close>, after three calls, gives a summary
  whose history has length 2 and holds the records of the second and third call, in
  that order.
\<close>

theorem history_bounded_fifo:
  assumes "reachable hp v K"
  shows "(\<exists>rs hp' v'. validate_many hp v cs = Some (rs, hp', v') \<and> length rs = length cs
            \<and> max_history v' = max_history v
            \<and> int (length (history v')) \<le> max_history v'
            \<and> length (omega_history v') = length (history v')
            \<and> length (cvar_history v') = length (history v')
            \<and> stored_records hp' v' =
                lastn (nat (max_history v)) (stored_records hp v @ map2 record_of cs rs)
            \<and> omega_history v' = lastn (nat (max_history v)) (omega_history v @ map vr_omega rs)
            \<and> cvar_history v' =
                lastn (nat (max_history v))
                  (cvar_history v @ map (\<lambda>(psi, theta, cvar, weights). clamp01 cvar) cs)
            \<and> (\<exists>s hp''. get_validation_summary hp' v' = Some (s, hp'')
                  \<and> map ((!) hp'') (summary_history s) = stored_records hp' v'))
         \<and> (\<exists>r1 r2 r3 hp1 v1 s hp2.
              validate_many hp0 (OmegaValidator_init thr lmt al 2 ms) [c1, c2, c3]
                = Some ([r1, r2, r3], hp1, v1)
              \<and> get_validation_summary hp1 v1 = Some (s, hp2)
              \<and> length (summary_history s) = 2
              \<and> map ((!) hp2) (summary_history s) = [record_of c2 r2, record_of c3 r3])"
proof -
  have inv: "validator_inv hp v K" using assms by (rule reachable_inv)
  from validate_many_run[OF inv, of cs] obtain rs hp' v' where
    run: "validate_many hp v cs = Some (rs, hp', v')" "length rs = length cs"
    and inv': "validator_inv hp' v' K"
    and rest: "max_history v' = max_history v"
      "stored_records hp' v' =
         lastn (nat (max_history v)) (stored_records hp v @ map2 record_of cs rs)"
      "omega_history v' = lastn (nat (max_history v)) (omega_history v @ map vr_omega rs)"
      "cvar_history v' =
         lastn (nat (max_history v))
           (cvar_history v @ map (\<lambda>(psi, theta, cvar, weights). clamp01 cvar) cs)"
    by blast
  have lens: "int (length (history v')) \<le> max_history v'"
    "length (omega_history v') = length (history v')"
    "length (cvar_history v') = length (history v')"
    using inv' by (simp_all add: validator_inv_def)
  from summary_reads_stored[OF inv']
  have sm: "\<exists>s hp''. get_validation_summary hp' v' = Some (s, hp'')
                  \<and> map ((!) hp'') (summary_history s) = stored_records hp' v'"
    by blast
  have first: "\<exists>rs hp' v'. validate_many hp v cs = Some (rs, hp', v') \<and> length rs = length cs
            \<and> max_history v' = max_history v
            \<and> int (length (history v')) \<le> max_history v'
            \<and> length (omega_history v') = length (history v')
            \<and> length (cvar_history v') = length (history v')
            \<and> stored_records hp' v' =
                lastn (nat (max_history v)) (stored_records hp v @ map2 record_of cs rs)
            \<and> omega_history v' = lastn (nat (max_history v)) (omega_history v @ map vr_omega rs)
            \<and> cvar_history v' =
                lastn (nat (max_history v))
                  (cvar_history v @ map (\<lambda>(psi, theta, cvar, weights). clamp01 cvar) cs)
            \<and> (\<exists>s hp''. get_validation_summary hp' v' = Some (s, hp'')
                  \<and> map ((!) hp'') (summary_history s) = stored_records hp' v')"
    using run rest lens sm by blast
  let ?v0 = "OmegaValidator_init thr lmt al 2 ms"
  have inv0: "validator_inv hp0 ?v0 {..<length hp0}" by (rule init_inv)
  from validate_many_run[OF inv0, of "[c1, c2, c3]"] obtain rs3 hp1 v1 where
    run3: "validate_many hp0 ?v0 [c1, c2, c3] = Some (rs3, hp1, v1)" and l3: "length rs3 = 3"
    and inv1: "validator_inv hp1 v1 {..<length hp0}"
    and sr3: "stored_records hp1 v1 =
         lastn (nat (max_history ?v0)) (stored_records hp0 ?v0 @ map2 record_of [c1, c2, c3] rs3)"
    by force
  from l3 obtain r1 r2 r3 where rs3: "rs3 = [r1, r2, r3]"
    by (cases rs3; simp; cases "tl rs3"; simp; cases "tl (tl rs3)"; simp)
  have sr: "stored_records hp1 v1 = [record_of c2 r2, record_of c3 r3]"
    unfolding sr3 rs3 by (simp add: OmegaValidator_init_def stored_records_def lastn_def)
  from summary_reads_stored[OF inv1] obtain s hp2 where
    "get_validation_summary hp1 v1 = Some (s, hp2)"
    "length (summary_history s) = length (history v1)"
    "map ((!) hp2) (summary_history s) = stored_records hp1 v1"
    by blast
  moreover have "length (history v1) = 2"
    using arg_cong[OF sr, of length] by (simp add: stored_records_def)
  ultimately have second: "\<exists>r1 r2 r3 hp1 v1 s hp2.
              validate_many hp0 ?v0 [c1, c2, c3] = Some ([r1, r2, r3], hp1, v1)
              \<and> get_validation_summary hp1 v1 = Some (s, hp2)
              \<and> length (summary_history s) = 2
              \<and> map ((!) hp2) (summary_history s) = [record_of c2 r2, record_of c3 r3]"
    using run3 rs3 sr by auto
  from first second show ?thesis by blast
qed

theorem history_bounded_fifo_witness:
  "reachable [] (OmegaValidator_init (Fin (9 / 10)) (Fin (1 / 10)) (Fin (9 / 10)) 2 5) {}
   \<and> (\<exists>rs hp' v' s hp''.
        validate_many [] (OmegaValidator_init (Fin (9 / 10)) (Fin (1 / 10)) (Fin (9 / 10)) 2 5)
          [(Fin (9 / 10), Fin (9 / 10), Fin (5 / 100), None),
           (Fin (8 / 10), Fin (85 / 100), Fin (1 / 10), None),
           (Fin (7 / 10), Fin (8 / 10), Fin (15 / 100), None)] = Some (rs, hp', v')
        \<and> length (history v') = 2 \<and> length (omega_history v') = 2
        \<and> length (cvar_history v') = 2
        \<and> get_validation_summary hp' v' = Some (s, hp'')
        \<and> map ((!) hp'') (summary_history s) =
            [[(''psi'', Fin (4 / 5)), (''theta'', Fin (17 / 20)),
              (''cvar'', Fin (1 / 10)), (''omega'', Fin (67 / 80))],
             [(''psi'', Fin (7 / 10)), (''theta'', Fin (4 / 5)),
              (''cvar'', Fin (3 / 20)), (''omega'', Fin (153 / 200))]])"
proof -
  let ?v0 = "OmegaValidator_init (Fin (9 / 10)) (Fin (1 / 10)) (Fin (9 / 10)) 2 5"
  have "reachable [] ?v0 {..<length ([] :: heap)}" by (rule reachable.construct)
  then have r: "reachable [] ?v0 {}" by simp
  let ?cs = "[(Fin (9 / 10), Fin (9 / 10), Fin (5 / 100), None),
         (Fin (8 / 10), Fin (85 / 100), Fin (1 / 10), None),
         (Fin (7 / 10), Fin (8 / 10), Fin (15 / 100), None)] :: call list"
  from history_bounded_fifo[OF r, of ?cs, THEN conjunct1]
  obtain rs hp' v' s hp'' where
    run: "validate_many [] ?v0 ?cs = Some (rs, hp', v')"
    and sm: "get_validation_summary hp' v' = Some (s, hp'')"
      "map ((!) hp'') (summary_history s) = stored_records hp' v'"
    by blast
  from run have v': "history v' = [1, 2]" "omega_history v' = [Fin (67 / 80), Fin (153 / 200)]"
    "cvar_history v' = [Fin (1 / 10), Fin (3 / 20)]"
    and st: "stored_records hp' v' =
            [[(''psi'', Fin (4 / 5)), (''theta'', Fin (17 / 20)),
              (''cvar'', Fin (1 / 10)), (''omega'', Fin (67 / 80))],
             [(''psi'', Fin (7 / 10)), (''theta'', Fin (4 / 5)),
              (''cvar'', Fin (3 / 20)), (''omega'', Fin (153 / 200))]]"
    unfolding ex_run3 by (auto simp: stored_records_def)
  show ?thesis
    using r run sm v' st by auto
qed

section \<open>The summary is a copy\<close>

text \<open>A heap that extends another and agrees with it on the old addresses shows the
  same stored records.\<close>

lemma stored_records_frame:
  assumes "list_all (\<lambda>a. a < length hp) (history v)"
    and "length hp \<le> length hp'" and "\<And>b. b < length hp \<Longrightarrow> hp' ! b = hp ! b"
  shows "stored_records hp' v = stored_records hp v"
  using assms by (auto simp: stored_records_def list_all_iff)

lemma ex_summary:
  "get_validation_summary [ex_entry, ex_entry]
     (ex_validator [0, 1] [Fin (91 / 100), Fin (91 / 100)] [Fin (1 / 20), Fin (1 / 20)]) =
   Some (\<lparr>latest = 3, summary_history = [2, 3], vs_qcvar = Fin (1 / 20),
            vs_omega_threshold = Fin (9 / 10), vs_qcvar_limit = Fin (1 / 10)\<rparr>,
         [ex_entry, ex_entry, ex_entry, ex_entry])"
  by (simp add: get_validation_summary_def alloc_def compute_qcvar_history_def ex_qcvar Let_def)

text \<open>
  Claim C6. In every state a validator can reach, the references that
  \<open>get_validation_summary\<close> returns (the entries of \<open>history\<close> and \<open>latest\<close>) are none
  of the validator's own, and the caller holds none of the validator's own. Replacing
  the dictionary behind any returned reference by any other leaves the stored records
  as they were, leaves the world reachable, and a subsequent \<open>get_validation_summary\<close>
  returns the values the first one returned before the change. \<open>get_system_health\<close>
  reads the validator's own lists only and no dictionary, so it cannot see the change.
\<close>

theorem summary_copy_isolation:
  assumes reach: "reachable hp v K"
    and g: "get_validation_summary hp v = Some (s, hp1)"
    and a: "a \<in> set (summary_history s) \<union> {latest s}"
  shows "set (history v) \<inter> K = {}
         \<and> a \<notin> set (history v)
         \<and> stored_records (hp1[a := d]) v = stored_records hp v
         \<and> reachable (hp1[a := d]) v (K \<union> set (summary_history s) \<union> {latest s})
         \<and> (\<exists>s2 hp2. get_validation_summary (hp1[a := d]) v = Some (s2, hp2)
               \<and> map ((!) hp2) (summary_history s2) = map ((!) hp1) (summary_history s)
               \<and> hp2 ! latest s2 = hp1 ! latest s
               \<and> vs_qcvar s2 = vs_qcvar s
               \<and> vs_omega_threshold s2 = vs_omega_threshold s
               \<and> vs_qcvar_limit s2 = vs_qcvar_limit s)"
proof -
  have inv: "validator_inv hp v K" using reach by (rule reachable_inv)
  have own: "list_all (\<lambda>b. b < length hp) (history v)"
    using inv by (auto simp: validator_inv_def list_all_iff)
  have disj: "set (history v) \<inter> K = {}"
    using inv by (auto simp: validator_inv_def list_all_iff)
  from summary_eq[OF inv] g obtain q where
    q: "(if cvar_history v \<noteq> [] then compute_qcvar_history v else Some (Fin 0)) = Some q"
    and sq: "vs_qcvar s = q" "vs_omega_threshold s = omega_threshold v"
      "vs_qcvar_limit s = qcvar_limit v"
    and sh: "summary_history s = [length hp ..< length hp + length (history v)]"
    and la: "latest s = (if history v = [] then length hp else length hp + length (history v) - 1)"
    and hp1: "hp1 = hp @ map (\<lambda>a. hp ! a) (history v) @ (if history v = [] then [[]] else [])"
    by auto
  have "length hp \<le> latest s" unfolding la by (cases "history v") simp_all
  then have ge: "length hp \<le> a" using a unfolding sh by auto
  have notin: "a \<notin> set (history v)" using own ge by (auto simp: list_all_iff)
  have frame1: "stored_records hp1 v = stored_records hp v"
    by (rule stored_records_frame[OF own]) (simp_all add: hp1 nth_append)
  have frame2: "stored_records (hp1[a := d]) v = stored_records hp v"
    by (rule stored_records_frame[OF own]) (use ge in \<open>simp_all add: hp1 nth_append\<close>)
  have reach1: "reachable hp1 v (K \<union> set (summary_history s) \<union> {latest s})"
    by (rule reachable.summary[OF reach g])
  have reach2: "reachable (hp1[a := d]) v (K \<union> set (summary_history s) \<union> {latest s})"
    by (rule reachable.caller_update[OF reach1]) (use a in auto)
  have inv2: "validator_inv (hp1[a := d]) v (K \<union> set (summary_history s) \<union> {latest s})"
    using reach2 by (rule reachable_inv)
  from summary_reads_stored[OF inv] g
  have first: "map ((!) hp1) (summary_history s) = stored_records hp v"
    "hp1 ! latest s = (if history v = [] then [] else last (stored_records hp v))"
    by auto
  from summary_reads_stored[OF inv2] obtain s2 hp2 where
    g2: "get_validation_summary (hp1[a := d]) v = Some (s2, hp2)"
    and m2: "map ((!) hp2) (summary_history s2) = stored_records (hp1[a := d]) v"
    and l2: "hp2 ! latest s2 =
        (if history v = [] then [] else last (stored_records (hp1[a := d]) v))"
    by blast
  from summary_eq[OF inv2] g2 q
  have sq2: "vs_qcvar s2 = q" "vs_omega_threshold s2 = omega_threshold v"
      "vs_qcvar_limit s2 = qcvar_limit v"
    by auto
  have "\<exists>s2 hp2. get_validation_summary (hp1[a := d]) v = Some (s2, hp2)
               \<and> map ((!) hp2) (summary_history s2) = map ((!) hp1) (summary_history s)
               \<and> hp2 ! latest s2 = hp1 ! latest s
               \<and> vs_qcvar s2 = vs_qcvar s
               \<and> vs_omega_threshold s2 = vs_omega_threshold s
               \<and> vs_qcvar_limit s2 = vs_qcvar_limit s"
    using g2 m2 l2 sq sq2 first frame2 by simp
  with disj notin frame2 reach2 show ?thesis by blast
qed

theorem summary_copy_isolation_witness:
  "reachable [ex_entry, ex_entry]
     (ex_validator [0, 1] [Fin (91 / 100), Fin (91 / 100)] [Fin (1 / 20), Fin (1 / 20)]) {}
   \<and> get_validation_summary [ex_entry, ex_entry]
       (ex_validator [0, 1] [Fin (91 / 100), Fin (91 / 100)] [Fin (1 / 20), Fin (1 / 20)]) =
     Some (\<lparr>latest = 3, summary_history = [2, 3], vs_qcvar = Fin (1 / 20),
              vs_omega_threshold = Fin (9 / 10), vs_qcvar_limit = Fin (1 / 10)\<rparr>,
           [ex_entry, ex_entry, ex_entry, ex_entry])
   \<and> (2::nat) \<in> set [2, 3] \<union> {3}
   \<and> stored_records ([ex_entry, ex_entry, ex_entry, ex_entry][2 := [(''omega'', Fin 0)]])
       (ex_validator [0, 1] [Fin (91 / 100), Fin (91 / 100)] [Fin (1 / 20), Fin (1 / 20)])
     = [ex_entry, ex_entry]
   \<and> (\<exists>s2 hp2. get_validation_summary
          ([ex_entry, ex_entry, ex_entry, ex_entry][2 := [(''omega'', Fin 0)]])
          (ex_validator [0, 1] [Fin (91 / 100), Fin (91 / 100)] [Fin (1 / 20), Fin (1 / 20)])
          = Some (s2, hp2)
        \<and> map ((!) hp2) (summary_history s2) = [ex_entry, ex_entry]
        \<and> hp2 ! latest s2 = ex_entry
        \<and> vs_qcvar s2 = Fin (1 / 20)
        \<and> vs_omega_threshold s2 = Fin (9 / 10)
        \<and> vs_qcvar_limit s2 = Fin (1 / 10))"
proof -
  have a: "(2::nat) \<in> set (summary_history
        \<lparr>latest = 3, summary_history = [2, 3], vs_qcvar = Fin (1 / 20),
          vs_omega_threshold = Fin (9 / 10), vs_qcvar_limit = Fin (1 / 10)\<rparr>)
      \<union> {latest \<lparr>latest = 3, summary_history = [2, 3], vs_qcvar = Fin (1 / 20),
          vs_omega_threshold = Fin (9 / 10), vs_qcvar_limit = Fin (1 / 10)\<rparr>}"
    by simp
  from summary_copy_isolation[OF ex_reachable ex_summary a, of "[(''omega'', Fin 0)]"]
  show ?thesis
    using ex_reachable ex_summary by (simp add: stored_records_def)
qed


end
